theory Spec2Isabelle
  imports Main
begin

section \<open>Strings: the three \<^verbatim>\<open>str\<close> methods the loader uses\<close>

text \<open>
  File names and table names are strings. The loader uses \<^verbatim>\<open>str.endswith\<close>,
  \<^verbatim>\<open>str.replace\<close> and \<^verbatim>\<open>str.lower\<close> on them. A string of the model is the
  UTF-8 encoding of the Python string: the pattern \<^verbatim>\<open>.csv\<close> is ASCII, and an ASCII
  byte never occurs inside the encoding of another character, so the suffix test and
  the replacement act on the bytes as they act on the characters. \<^verbatim>\<open>str.lower\<close> is
  Unicode's lower-casing, which is not part of the repository: the model does not define
  it. Every function that depends on it takes it as its first argument, \<open>lower\<close>, and
  the theorems hold for every such function.
\<close>

type_synonym filename = string
type_synonym table_name = string

definition endswith :: "string \<Rightarrow> string \<Rightarrow> bool" where
  "endswith s suf \<longleftrightarrow>
     length suf \<le> length s \<and> drop (length s - length suf) s = suf"

text \<open>
  \<^verbatim>\<open>s.replace(old, new)\<close>: every non-overlapping occurrence of \<open>old\<close>, found from the
  left, is replaced. With an empty \<open>old\<close> Python puts \<open>new\<close> before every character and at
  the end.
\<close>

function replace :: "string \<Rightarrow> string \<Rightarrow> string \<Rightarrow> string" where
  "replace [] old new = (if old = [] then new else [])"
| "replace (c # cs) old new =
     (if old = [] then new @ concat (map (\<lambda>d. d # new) (c # cs))
      else if take (length old) (c # cs) = old
           then new @ replace (drop (length old) (c # cs)) old new
           else c # replace cs old new)"
  by pat_completeness auto
termination
  by (relation "measure (\<lambda>(s, old, new). length s)") auto

text \<open>\<^verbatim>\<open>old in s\<close>: \<open>old\<close> occurs in \<open>s\<close>.\<close>

fun str_contains :: "string \<Rightarrow> string \<Rightarrow> bool" where
  "str_contains [] old \<longleftrightarrow> old = []"
| "str_contains (c # cs) old \<longleftrightarrow> take (length old) (c # cs) = old \<or> str_contains cs old"

section \<open>Name derivation and the candidate filter\<close>

text \<open>
  \<^verbatim>\<open>filename.endswith(".csv")\<close> is the candidate filter and
  \<^verbatim>\<open>filename.replace(".csv", "").lower()\<close> the derived table name, in both scripts.
  \<^verbatim>\<open>os.path.join(data_folder, filename)\<close> is the path that is read; the names come
  from \<^verbatim>\<open>os.listdir\<close>, so they hold no separator.
\<close>

definition data_folder :: string where
  "data_folder = ''data''"

definition is_candidate :: "filename \<Rightarrow> bool" where
  "is_candidate filename \<longleftrightarrow> endswith filename ''.csv''"

definition derive_table_name :: "(string \<Rightarrow> string) \<Rightarrow> filename \<Rightarrow> table_name" where
  "derive_table_name lower filename = lower (replace filename ''.csv'' '''')"

definition os_path_join :: "string \<Rightarrow> filename \<Rightarrow> string" where
  "os_path_join d filename = d @ ''/'' @ filename"

text \<open>
  What the specification calls the derived name: the extension stripped from the end of
  the name, the rest lower-cased. It is the reference the code's derivation is compared
  with.
\<close>

definition strip_extension :: "filename \<Rightarrow> string" where
  "strip_extension filename =
     (if endswith filename ''.csv'' then take (length filename - 4) filename else filename)"

definition spec_table_name :: "(string \<Rightarrow> string) \<Rightarrow> filename \<Rightarrow> table_name" where
  "spec_table_name lower filename = lower (strip_extension filename)"

section \<open>Data model\<close>

text \<open>
  Python exceptions, as far as the handlers of \<^verbatim>\<open>app.py\<close> tell them apart:
  \<^verbatim>\<open>except SQLAlchemyError\<close> and \<^verbatim>\<open>except Exception\<close>. Both are instances of
  \<^verbatim>\<open>Exception\<close>, so the handler around a single file catches either.
\<close>

datatype exn = SQLAlchemyError string | OtherException string

text \<open>
  A \<^verbatim>\<open>DataFrame\<close> as the loader sees it: the header row and the data rows.
  \<^verbatim>\<open>len(df)\<close> is the number of data rows.
\<close>

record dataframe =
  columns :: "string list"
  rows :: "string list list"

definition len :: "dataframe \<Rightarrow> nat" where
  "len df = length (rows df)"

text \<open>The destination store: the tables of the default schema, by name.\<close>

type_synonym store = "table_name \<rightharpoonup> dataframe"

text \<open>
  The calls to \<^verbatim>\<open>st.info\<close>, \<^verbatim>\<open>st.success\<close>, \<^verbatim>\<open>st.error\<close> and
  \<^verbatim>\<open>st.warning\<close>, in the order they are made. Each constructor is one message of the
  source and keeps the values its f-string interpolates:
  \<^item> \<open>Skipped_AlreadyExists t\<close>: \<^verbatim>\<open>st.info\<close>, "Table t already exists. Skipping load.";
  \<^item> \<open>Loaded t n\<close>: \<^verbatim>\<open>st.success\<close>, "t loaded with n rows.";
  \<^item> \<open>Failed f e\<close>: \<^verbatim>\<open>st.error\<close>, "Failed to load f: e";
  \<^item> \<open>DirectoryNotFound d\<close>: \<^verbatim>\<open>st.error\<close>, "Data directory not found: d";
  \<^item> \<open>Database_connection_error e\<close> and \<open>Unexpected_error e\<close>: the two outer handlers;
  \<^item> \<open>No_csv_files\<close>: the \<^verbatim>\<open>st.warning\<close> of \<^verbatim>\<open>data_injection.py\<close>.
\<close>

datatype st_call =
    Skipped_AlreadyExists table_name
  | Loaded table_name nat
  | Failed filename exn
  | DirectoryNotFound string
  | Database_connection_error exn
  | Unexpected_error exn
  | No_csv_files

text \<open>
  A log of the calls that leave the process: the inspector querying the store, a file
  being read, a transaction being opened for a table, \<^verbatim>\<open>to_sql\<close> being called on the
  engine with no transaction around it. It is ghost state: nothing in the program reads
  it.
\<close>

datatype io_event = Reflect_tables | Read_csv string | Begin_txn table_name | To_sql table_name

section \<open>The store: statements and transactions\<close>

datatype sql =
    Drop_table table_name
  | Create_table table_name "string list"
  | Insert_row table_name "string list"

fun exec_sql :: "sql \<Rightarrow> store \<Rightarrow> exn + store" where
  "exec_sql (Drop_table n) s =
     (if s n = None then Inl (SQLAlchemyError ''no such table'') else Inr (s(n := None)))"
| "exec_sql (Create_table n cols) s =
     (if s n = None then Inr (s(n \<mapsto> \<lparr>columns = cols, rows = []\<rparr>))
      else Inl (SQLAlchemyError ''table exists''))"
| "exec_sql (Insert_row n r) s =
     (case s n of
        None \<Rightarrow> Inl (SQLAlchemyError ''no such table'')
      | Some t \<Rightarrow> Inr (s(n \<mapsto> t\<lparr>rows := rows t @ [r]\<rparr>)))"

text \<open>Statements run in order on the connection; the first that raises stops the run.\<close>

fun exec_all :: "sql list \<Rightarrow> store \<Rightarrow> exn option \<times> store" where
  "exec_all [] s = (None, s)"
| "exec_all (q # qs) s =
     (case exec_sql q s of Inl e \<Rightarrow> (Some e, s) | Inr s' \<Rightarrow> exec_all qs s')"

text \<open>
  \<^verbatim>\<open>df.to_sql(table_name, conn, if_exists="replace", index=False)\<close>: a table of that
  name is dropped if there is one, the table is created from the header and the rows are
  inserted. The store may fail under it: \<open>Some (k, e)\<close> is the fault "after \<open>k\<close>
  statements the store raises \<open>e\<close>" (at the commit, when \<open>k\<close> is the number of
  statements or more). The second component is the state of the connection when
  \<^verbatim>\<open>to_sql\<close> returns or raises.
\<close>

definition to_sql_statements :: "table_name \<Rightarrow> dataframe \<Rightarrow> store \<Rightarrow> sql list" where
  "to_sql_statements table_name df conn =
     (if conn table_name = None then [] else [Drop_table table_name])
     @ [Create_table table_name (columns df)]
     @ map (Insert_row table_name) (rows df)"

definition to_sql ::
  "table_name \<Rightarrow> dataframe \<Rightarrow> (nat \<times> exn) option \<Rightarrow> store \<Rightarrow> exn option \<times> store" where
  "to_sql table_name df fault conn =
     (let stmts = to_sql_statements table_name df conn
      in case fault of
           None \<Rightarrow> exec_all stmts conn
         | Some (k, e) \<Rightarrow>
             (case exec_all (take k stmts) conn of
                (Some e', conn') \<Rightarrow> (Some e', conn')
              | (None, conn') \<Rightarrow> (Some e, conn')))"

text \<open>
  \<^verbatim>\<open>df.to_sql(table_name, engine, if_exists='replace', index=False)\<close>, as
  \<^verbatim>\<open>data_injection.py\<close> calls it: \<^verbatim>\<open>to_sql\<close> is given the engine and no transaction
  surrounds the call. The drop and the create are committed as they run; the rows are
  inserted in one transaction of \<^verbatim>\<open>to_sql\<close>'s own, which is lost when it raises. So
  a write that raises leaves the store as the committed statements left it: untouched,
  or the old table gone, or the new table created and empty.
\<close>

definition to_sql_ddl :: "table_name \<Rightarrow> dataframe \<Rightarrow> store \<Rightarrow> sql list" where
  "to_sql_ddl table_name df conn =
     (if conn table_name = None then [] else [Drop_table table_name])
     @ [Create_table table_name (columns df)]"

definition to_sql_on_engine ::
  "table_name \<Rightarrow> dataframe \<Rightarrow> (nat \<times> exn) option \<Rightarrow> store \<Rightarrow> exn option \<times> store" where
  "to_sql_on_engine table_name df fault s =
     (case fault of
        None \<Rightarrow> exec_all (to_sql_statements table_name df s) s
      | Some (k, e) \<Rightarrow>
          (case exec_all (take k (to_sql_ddl table_name df s)) s of
             (Some e', s') \<Rightarrow> (Some e', s')
           | (None, s') \<Rightarrow> (Some e, s')))"

text \<open>
  Modelled from the spec: the transaction of the destination store, which is not part of
  the repository (\<^verbatim>\<open>with engine.begin() as conn:\<close> of SQLAlchemy on the database).
  The specification gives the store \<^verbatim>\<open>begin_transaction()\<close>,
  \<^verbatim>\<open>commit()/rollback()\<close> and says: "If any write step raises, the transaction rolls
  back in full". So the block commits what its body did when the body returns, and
  restores the state at \<^verbatim>\<open>begin\<close> and re-raises when the body raises.
\<close>

definition engine_begin ::
  "(store \<Rightarrow> exn option \<times> store) \<Rightarrow> store \<Rightarrow> exn option \<times> store" where
  "engine_begin body s =
     (case body s of
        (None, s') \<Rightarrow> (None, s')
      | (Some e, s') \<Rightarrow> (Some e, s))"

section \<open>The environment of a run and the state it changes\<close>

text \<open>
  What a run finds outside the program:
  \<^item> \<open>engine_error\<close>: whether \<^verbatim>\<open>st.secrets["DB_URL"]\<close> or \<^verbatim>\<open>create_engine\<close>
    raises;
  \<^item> \<open>inspect_error\<close>: whether \<^verbatim>\<open>inspect(engine)\<close> raises;
  \<^item> \<open>dir_exists\<close>: \<^verbatim>\<open>os.path.exists(data_folder)\<close>;
  \<^item> \<open>listdir\<close>: what \<^verbatim>\<open>os.listdir(data_folder)\<close> does: it raises (the path exists but
    is a regular file, or a directory that may not be read), or returns the names in the
    order the file system gives;
  \<^item> \<open>read_csv\<close>: what \<^verbatim>\<open>pd.read_csv(filepath, encoding="latin1")\<close> does on a path: it
    raises, or returns the frame whose rows are the data rows of the file;
  \<^item> \<open>write_fault\<close>: the fault of the store, if any, during the write of the file of
    that path;
  \<^item> \<open>reflect_error\<close>: whether the inspector's query of the table names raises.
\<close>

record env =
  engine_error :: "exn option"
  inspect_error :: "exn option"
  dir_exists :: bool
  listdir :: "exn + filename list"
  read_csv :: "string \<Rightarrow> exn + dataframe"
  write_fault :: "string \<Rightarrow> (nat \<times> exn) option"
  reflect_error :: "exn option"

text \<open>
  The state a run changes: the store, the inspector's cache, the local list
  \<^verbatim>\<open>files_loaded\<close>, the keys of \<^verbatim>\<open>st.session_state\<close> the script sets
  (\<open>session_data_loaded\<close> is "the key \<^verbatim>\<open>data_loaded\<close> is present"; its value is always
  \<^verbatim>\<open>True\<close>), the memo table of \<^verbatim>\<open>@st.cache_data\<close> (used by
  \<^verbatim>\<open>data_injection.py\<close> only), the messages shown and the log of outside calls.
\<close>

record world =
  db :: store
  info_cache :: "table_name set option"
  files_loaded :: "table_name list"
  session_data_loaded :: bool
  session_files_loaded :: "table_name list option"
  session_engine :: bool
  cache_data :: "(string \<times> table_name) \<rightharpoonup> (table_name \<times> nat)"
  ui :: "st_call list"
  io :: "io_event list"

text \<open>
  Modelled from the spec: the Catalog Inspector (\<^verbatim>\<open>inspector.get_table_names()\<close> on the
  object returned by SQLAlchemy's \<^verbatim>\<open>inspect(engine)\<close>, which is not part of the
  repository). The script calls it once per candidate file, on the one inspector of the
  run. The specification says the set is obtained once, "a point-in-time snapshot taken
  once at run start (not refreshed per file)": the inspector keeps the first answer in
  its cache and returns it from then on. Only the first call queries the store, and only
  that call can raise.
\<close>

definition get_table_names :: "env \<Rightarrow> world \<Rightarrow> exn + (table_name set \<times> world)" where
  "get_table_names env w =
     (case info_cache w of
        Some names \<Rightarrow> Inr (names, w)
      | None \<Rightarrow>
          (case reflect_error env of
             Some e \<Rightarrow> Inl e
           | None \<Rightarrow>
               Inr (dom (db w),
                    w\<lparr>info_cache := Some (dom (db w)), io := io w @ [Reflect_tables]\<rparr>)))"

section \<open>\<^verbatim>\<open>app.py\<close>: the ingestion block\<close>

text \<open>
  The body of the inner \<^verbatim>\<open>try\<close> with its handler: read the file, write the frame in
  one transaction, report. \<^verbatim>\<open>except Exception as e\<close> turns whatever the read or the
  write raises into the message "Failed to load".
\<close>

definition load_file :: "env \<Rightarrow> filename \<Rightarrow> string \<Rightarrow> table_name \<Rightarrow> world \<Rightarrow> world" where
  "load_file env filename filepath table_name w =
     (let w1 = w\<lparr>io := io w @ [Read_csv filepath]\<rparr>
      in case read_csv env filepath of
           Inl e \<Rightarrow> w1\<lparr>ui := ui w1 @ [Failed filename e]\<rparr>
         | Inr df \<Rightarrow>
             (let w2 = w1\<lparr>io := io w1 @ [Begin_txn table_name]\<rparr>
              in case engine_begin (to_sql table_name df (write_fault env filepath)) (db w2) of
                   (Some e, s) \<Rightarrow> w2\<lparr>db := s, ui := ui w2 @ [Failed filename e]\<rparr>
                 | (None, s) \<Rightarrow>
                     w2\<lparr>db := s,
                        ui := ui w2 @ [Loaded table_name (len df)],
                        files_loaded := files_loaded w2 @ [table_name]\<rparr>))"

text \<open>
  One turn of the \<^verbatim>\<open>for\<close> loop. The call of the inspector is outside the inner
  \<^verbatim>\<open>try\<close>: what it raises leaves the loop.
\<close>

definition process_file :: "(string \<Rightarrow> string) \<Rightarrow> env \<Rightarrow> filename \<Rightarrow> world \<Rightarrow> exn option \<times> world" where
  "process_file lower env filename w =
     (if is_candidate filename then
        (let filepath = os_path_join data_folder filename;
             table_name = derive_table_name lower filename
         in case get_table_names env w of
              Inl e \<Rightarrow> (Some e, w)
            | Inr (names, w1) \<Rightarrow>
                if table_name \<in> names
                then (None, w1\<lparr>ui := ui w1 @ [Skipped_AlreadyExists table_name]\<rparr>)
                else (None, load_file env filename filepath table_name w1))
      else (None, w))"

fun ingest_loop :: "(string \<Rightarrow> string) \<Rightarrow> env \<Rightarrow> filename list \<Rightarrow> world \<Rightarrow> exn option \<times> world" where
  "ingest_loop lower env [] w = (None, w)"
| "ingest_loop lower env (filename # rest) w =
     (case process_file lower env filename w of
        (Some e, w') \<Rightarrow> (Some e, w')
      | (None, w') \<Rightarrow> ingest_loop lower env rest w')"

text \<open>
  The \<^verbatim>\<open>if not os.path.exists(data_folder)\<close> statement with both branches: what the
  specification calls \<^verbatim>\<open>ingest_all\<close>. The first component is the exception that
  leaves it, if any: what \<^verbatim>\<open>os.listdir\<close> raises, or what leaves the loop.
\<close>

definition ingest_all :: "(string \<Rightarrow> string) \<Rightarrow> env \<Rightarrow> world \<Rightarrow> exn option \<times> world" where
  "ingest_all lower env w =
     (if \<not> dir_exists env then (None, w\<lparr>ui := ui w @ [DirectoryNotFound data_folder]\<rparr>)
      else
        (case listdir env of
           Inl e \<Rightarrow> (Some e, w\<lparr>files_loaded := []\<rparr>)
         | Inr names \<Rightarrow>
             (case ingest_loop lower env names (w\<lparr>files_loaded := []\<rparr>) of
                (Some e, w') \<Rightarrow> (Some e, w')
              | (None, w') \<Rightarrow>
                  (None, w'\<lparr>session_data_loaded := True,
                            session_files_loaded := Some (files_loaded w')\<rparr>))))"

text \<open>The two outer handlers.\<close>

definition handle_outer :: "exn \<Rightarrow> world \<Rightarrow> world" where
  "handle_outer e w =
     w\<lparr>ui := ui w @ [case e of
                        SQLAlchemyError m \<Rightarrow> Database_connection_error e
                      | OtherException m \<Rightarrow> Unexpected_error e]\<rparr>"

text \<open>
  One run of the script, as far as ingestion goes: the gate on the key
  \<^verbatim>\<open>data_loaded\<close>, the set-up of engine and inspector (a new inspector, so an empty
  cache), \<^verbatim>\<open>ingest_all\<close>, the outer handlers. With the key present the script only
  fetches the engine from the session.
\<close>

definition script_run :: "(string \<Rightarrow> string) \<Rightarrow> env \<Rightarrow> world \<Rightarrow> world" where
  "script_run lower env w =
     (if session_data_loaded w then w
      else
        (case engine_error env of
           Some e \<Rightarrow> handle_outer e w
         | None \<Rightarrow>
             (let w1 = w\<lparr>session_engine := True\<rparr>
              in case inspect_error env of
                   Some e \<Rightarrow> handle_outer e w1
                 | None \<Rightarrow>
                     (case ingest_all lower env (w1\<lparr>info_cache := None\<rparr>) of
                        (Some e, w') \<Rightarrow> handle_outer e w'
                      | (None, w') \<Rightarrow> w'))))"

section \<open>\<^verbatim>\<open>data_injection.py\<close>: the load primitive and its loop\<close>

text \<open>
  The body of \<^verbatim>\<open>load_csv_to_db\<close>. \<^verbatim>\<open>to_sql\<close> is given the engine, with no
  \<^verbatim>\<open>engine.begin()\<close> around it. Nothing is caught: an exception leaves the function,
  and the store stays as the failed write left it. The result stands for the string
  "table_name loaded with n rows.".
\<close>

definition load_csv_to_db_body ::
  "env \<Rightarrow> string \<Rightarrow> table_name \<Rightarrow> world \<Rightarrow> (exn + table_name \<times> nat) \<times> world" where
  "load_csv_to_db_body env file table_name w =
     (let w1 = w\<lparr>io := io w @ [Read_csv file]\<rparr>
      in case read_csv env file of
           Inl e \<Rightarrow> (Inl e, w1)
         | Inr df \<Rightarrow>
             (let w2 = w1\<lparr>io := io w1 @ [To_sql table_name]\<rparr>
              in case to_sql_on_engine table_name df (write_fault env file) (db w2) of
                   (Some e, s) \<Rightarrow> (Inl e, w2\<lparr>db := s\<rparr>)
                 | (None, s) \<Rightarrow> (Inr (table_name, len df), w2\<lparr>db := s\<rparr>)))"

text \<open>
  \<^verbatim>\<open>@st.cache_data\<close>: a call with arguments seen before returns the stored result and
  does not run the body; a call that raises stores nothing.
\<close>

definition load_csv_to_db ::
  "env \<Rightarrow> string \<Rightarrow> table_name \<Rightarrow> world \<Rightarrow> (exn + table_name \<times> nat) \<times> world" where
  "load_csv_to_db env file table_name w =
     (case cache_data w (file, table_name) of
        Some r \<Rightarrow> (Inr r, w)
      | None \<Rightarrow>
          (case load_csv_to_db_body env file table_name w of
             (Inl e, w') \<Rightarrow> (Inl e, w')
           | (Inr r, w') \<Rightarrow>
               (Inr r, w'\<lparr>cache_data := (cache_data w')((file, table_name) \<mapsto> r)\<rparr>)))"

fun injection_loop :: "(string \<Rightarrow> string) \<Rightarrow> env \<Rightarrow> filename list \<Rightarrow> world \<Rightarrow> exn option \<times> world" where
  "injection_loop lower env [] w = (None, w)"
| "injection_loop lower env (filename # rest) w =
     (if is_candidate filename then
        (let filepath = os_path_join data_folder filename;
             table_name = derive_table_name lower filename
         in case load_csv_to_db env filepath table_name w of
              (Inl e, w') \<Rightarrow> (Some e, w')
            | (Inr (t, n), w') \<Rightarrow>
                injection_loop lower env rest
                  (w'\<lparr>ui := ui w' @ [Loaded t n],
                      files_loaded := files_loaded w' @ [table_name]\<rparr>))
      else injection_loop lower env rest w)"

definition data_injection_main :: "(string \<Rightarrow> string) \<Rightarrow> env \<Rightarrow> world \<Rightarrow> exn option \<times> world" where
  "data_injection_main lower env w =
     (case engine_error env of
        Some e \<Rightarrow> (Some e, w)
      | None \<Rightarrow>
          (if \<not> dir_exists env then (None, w\<lparr>ui := ui w @ [DirectoryNotFound data_folder]\<rparr>)
           else
             (case listdir env of
                Inl e \<Rightarrow> (Some e, w\<lparr>files_loaded := []\<rparr>)
              | Inr names \<Rightarrow>
                  (case injection_loop lower env names (w\<lparr>files_loaded := []\<rparr>) of
                     (Some e, w') \<Rightarrow> (Some e, w')
                   | (None, w') \<Rightarrow>
                       (None, if files_loaded w' = [] then w'\<lparr>ui := ui w' @ [No_csv_files]\<rparr>
                              else w')))))"

section \<open>A run, file by file\<close>

text \<open>
  The functions of this section are not in the source. They say what a run does to one
  candidate file once the set of existing tables is known, and the lemmas below prove
  that the loop of \<^verbatim>\<open>app.py\<close> does exactly that, file after file.
\<close>

definition listdir_returns :: "env \<Rightarrow> bool" where
  "listdir_returns env = (case listdir env of Inl e \<Rightarrow> False | Inr names \<Rightarrow> True)"

text \<open>The candidate files of the listing; none when there is no listing.\<close>

definition candidates :: "env \<Rightarrow> filename list" where
  "candidates env = (case listdir env of Inl e \<Rightarrow> [] | Inr names \<Rightarrow> filter is_candidate names)"

text \<open>The set the inspector answers with: its cache, or the tables of the store now.\<close>

definition snapshot :: "world \<Rightarrow> table_name set" where
  "snapshot w = (case info_cache w of Some names \<Rightarrow> names | None \<Rightarrow> dom (db w))"

text \<open>The frame a file puts into the store when both its read and its write go through.\<close>

definition file_frame :: "env \<Rightarrow> filename \<Rightarrow> dataframe option" where
  "file_frame env filename =
     (case read_csv env (os_path_join data_folder filename) of
        Inl e \<Rightarrow> None
      | Inr df \<Rightarrow>
          (case write_fault env (os_path_join data_folder filename) of
             None \<Rightarrow> Some df
           | Some fault \<Rightarrow> None))"

definition file_outcome :: "(string \<Rightarrow> string) \<Rightarrow> env \<Rightarrow> table_name set \<Rightarrow> filename \<Rightarrow> st_call" where
  "file_outcome lower env names filename =
     (if derive_table_name lower filename \<in> names
      then Skipped_AlreadyExists (derive_table_name lower filename)
      else
        (case read_csv env (os_path_join data_folder filename) of
           Inl e \<Rightarrow> Failed filename e
         | Inr df \<Rightarrow>
             (case write_fault env (os_path_join data_folder filename) of
                None \<Rightarrow> Loaded (derive_table_name lower filename) (len df)
              | Some (k, e) \<Rightarrow> Failed filename e)))"

definition file_store :: "(string \<Rightarrow> string) \<Rightarrow> env \<Rightarrow> table_name set \<Rightarrow> filename \<Rightarrow> store \<Rightarrow> store" where
  "file_store lower env names filename s =
     (if derive_table_name lower filename \<in> names then s
      else
        (case file_frame env filename of
           None \<Rightarrow> s
         | Some df \<Rightarrow> s(derive_table_name lower filename \<mapsto> df)))"

definition file_io :: "(string \<Rightarrow> string) \<Rightarrow> env \<Rightarrow> table_name set \<Rightarrow> filename \<Rightarrow> io_event list" where
  "file_io lower env names filename =
     (if derive_table_name lower filename \<in> names then []
      else
        (case read_csv env (os_path_join data_folder filename) of
           Inl e \<Rightarrow> [Read_csv (os_path_join data_folder filename)]
         | Inr df \<Rightarrow>
             [Read_csv (os_path_join data_folder filename),
              Begin_txn (derive_table_name lower filename)]))"

definition file_loaded :: "(string \<Rightarrow> string) \<Rightarrow> env \<Rightarrow> table_name set \<Rightarrow> filename \<Rightarrow> table_name list" where
  "file_loaded lower env names filename =
     (if derive_table_name lower filename \<in> names then []
      else
        (case file_frame env filename of
           None \<Rightarrow> []
         | Some df \<Rightarrow> [derive_table_name lower filename]))"

definition file_step :: "(string \<Rightarrow> string) \<Rightarrow> env \<Rightarrow> table_name set \<Rightarrow> filename \<Rightarrow> world \<Rightarrow> world" where
  "file_step lower env names filename w =
     (if is_candidate filename
      then w\<lparr>db := file_store lower env names filename (db w),
             files_loaded := files_loaded w @ file_loaded lower env names filename,
             ui := ui w @ [file_outcome lower env names filename],
             io := io w @ file_io lower env names filename\<rparr>
      else w)"

text \<open>
  A new session on the same store: what a script run starts from when the process or the
  browser session is new. The store and the memo table outlive the session.
\<close>

definition new_session :: "world \<Rightarrow> world" where
  "new_session w =
     w\<lparr>info_cache := None, files_loaded := [], session_data_loaded := False,
       session_files_loaded := None, session_engine := False, ui := [], io := []\<rparr>"

section \<open>Example runs\<close>

text \<open>
  Small directories and stores on which the theorems below are instantiated. Two of the
  file names, \<^verbatim>\<open>A.csv\<close> and \<^verbatim>\<open>a.csv\<close>, derive the same table name.

  The names of the examples are ASCII. On a string of ASCII characters
  \<^verbatim>\<open>str.lower\<close> adds 32 to the letters \<^verbatim>\<open>A\<close> to \<^verbatim>\<open>Z\<close> and changes nothing else;
  \<open>ascii_lower\<close> does that, and is what the examples pass for \<open>lower\<close>. It is not
  \<^verbatim>\<open>str.lower\<close> on other strings, and no theorem below takes it for that.
\<close>

definition ascii_lower_char :: "char \<Rightarrow> char" where
  "ascii_lower_char c =
     (let n = (of_char c :: nat)
      in if 65 \<le> n \<and> n \<le> 90 then char_of (n + 32) else c)"

definition ascii_lower :: "string \<Rightarrow> string" where
  "ascii_lower s = map ascii_lower_char s"

definition df_A :: dataframe where
  "df_A = \<lparr>columns = [''id'', ''qty''], rows = [[''1'', ''5''], [''2'', ''7'']]\<rparr>"

definition df_a :: dataframe where
  "df_a = \<lparr>columns = [''id'', ''qty''], rows = [[''9'', ''0'']]\<rparr>"

definition files_ex :: "string \<Rightarrow> exn + dataframe" where
  "files_ex p =
     (if p = ''data/A.csv'' then Inr df_A
      else if p = ''data/a.csv'' then Inr df_a
      else Inl (OtherException ''parse error''))"

definition env_ex :: env where
  "env_ex = \<lparr>engine_error = None, inspect_error = None, dir_exists = True,
              listdir = Inr [''A.csv'', ''n.txt'', ''a.csv'', ''b.csv''],
              read_csv = files_ex, write_fault = (\<lambda>p. None), reflect_error = None\<rparr>"

definition world_ex :: world where
  "world_ex = \<lparr>db = Map.empty, info_cache = None, files_loaded = [],
                session_data_loaded = False, session_files_loaded = None,
                session_engine = False, cache_data = Map.empty, ui = [], io = []\<rparr>"

text \<open>The same directory when the store fails during the transaction for \<^verbatim>\<open>a.csv\<close>.\<close>

definition lost :: exn where
  "lost = SQLAlchemyError ''connection lost''"

definition env_fault :: env where
  "env_fault = env_ex\<lparr>write_fault := (\<lambda>p. if p = ''data/a.csv'' then Some (1, lost) else None)\<rparr>"

text \<open>No data directory.\<close>

definition env_nodir :: env where
  "env_nodir = env_ex\<lparr>dir_exists := False,
                      listdir := Inl (OtherException ''No such file or directory'')\<rparr>"

text \<open>The directory \<^verbatim>\<open>data\<close> exists and may not be read: it cannot be listed.\<close>

definition env_unlistable :: env where
  "env_unlistable = env_ex\<lparr>listdir := Inl (OtherException ''Permission denied'')\<rparr>"

text \<open>A store that holds the table \<^verbatim>\<open>a\<close> before the run.\<close>

definition world_old :: world where
  "world_old = world_ex\<lparr>db := [''a'' \<mapsto> df_A]\<rparr>"

text \<open>The same directory when no file can be parsed, and when the database is down.\<close>

definition env_allfail :: env where
  "env_allfail = env_ex\<lparr>read_csv := (\<lambda>p. Inl (OtherException ''parse error''))\<rparr>"

definition env_down :: env where
  "env_down = env_ex\<lparr>inspect_error := Some (SQLAlchemyError ''connection refused'')\<rparr>"

text \<open>The state of a run on the empty store after \<^verbatim>\<open>A.csv\<close> has been loaded.\<close>

definition world_mid :: world where
  "world_mid = world_ex\<lparr>db := [''a'' \<mapsto> df_A], info_cache := Some {}, files_loaded := [''a''],
                 ui := [Loaded ''a'' 2],
                 io := [Reflect_tables, Read_csv ''data/A.csv'', Begin_txn ''a'']\<rparr>"

text \<open>
  Three files of which the second cannot be parsed; the other two load, into the tables
  \<^verbatim>\<open>a\<close> and \<^verbatim>\<open>c\<close>.
\<close>

definition env_iso :: env where
  "env_iso = env_ex\<lparr>listdir := Inr [''A.csv'', ''b.csv'', ''c.csv''],
                    read_csv := (\<lambda>p. if p = ''data/c.csv'' then Inr df_a else files_ex p)\<rparr>"

text \<open>
  The directory of \<open>env_fault\<close> when, besides the write of \<^verbatim>\<open>a.csv\<close> failing,
  \<^verbatim>\<open>A.csv\<close> cannot be parsed: two files derive the table \<^verbatim>\<open>a\<close> and neither loads.
\<close>

definition env_twofail :: env where
  "env_twofail = env_fault\<lparr>read_csv := (\<lambda>p. if p = ''data/A.csv''
                                             then Inl (OtherException ''parse error'')
                                             else files_ex p)\<rparr>"

section \<open>Strings: suffixes and replacement\<close>

lemma endswith_iff: "endswith s suf \<longleftrightarrow> (\<exists>base. s = base @ suf)"
proof
  assume "endswith s suf"
  then have "s = take (length s - length suf) s @ suf"
    by (simp add: endswith_def) (metis append_take_drop_id)
  then show "\<exists>base. s = base @ suf" ..
next
  assume "\<exists>base. s = base @ suf"
  then show "endswith s suf" by (auto simp: endswith_def)
qed

lemma replace_self: "old \<noteq> [] \<Longrightarrow> replace old old new = new"
  by (cases old) simp_all

lemma replace_suffix_only:
  assumes "old \<noteq> []" and "\<not> str_contains (butlast (base @ old)) old"
  shows "replace (base @ old) old new = base @ new"
  using assms(2)
proof (induction base)
  case Nil
  show ?case using assms(1) by (simp add: replace_self)
next
  case (Cons c b)
  have ne: "b @ old \<noteq> []" using assms(1) by simp
  have "butlast ((c # b) @ old) = c # butlast (b @ old)"
    using assms(1) by simp
  with Cons.prems have no_head: "take (length old) (c # butlast (b @ old)) \<noteq> old"
    and rest: "\<not> str_contains (butlast (b @ old)) old"
    by simp_all
  have "take (length old) (c # b @ old) = take (length old) (butlast (c # b @ old))"
    by (rule take_butlast [symmetric]) simp
  with ne no_head have "take (length old) (c # b @ old) \<noteq> old" by simp
  then have "replace ((c # b) @ old) old new = c # replace (b @ old) old new"
    using assms(1) by simp
  with Cons.IH [OF rest] show ?case by simp
qed

lemma ascii_lower_orders [simp]: "ascii_lower ''Orders'' = ''orders''"
  by code_simp

section \<open>The store: what a transaction leaves\<close>

lemma exec_all_append:
  "exec_all (xs @ ys) s =
     (case exec_all xs s of (Some e, s') \<Rightarrow> (Some e, s') | (None, s') \<Rightarrow> exec_all ys s')"
  by (induction xs arbitrary: s) (auto split: sum.splits)

lemma exec_all_inserts:
  "s n = Some t \<Longrightarrow>
   exec_all (map (Insert_row n) rs) s = (None, s(n \<mapsto> t\<lparr>rows := rows t @ rs\<rparr>))"
proof (induction rs arbitrary: s t)
  case Nil
  then show ?case by (simp add: fun_upd_idem)
next
  case (Cons r rs)
  let ?t = "t\<lparr>rows := rows t @ [r]\<rparr>"
  have "exec_all (map (Insert_row n) rs) (s(n \<mapsto> ?t)) =
          (None, (s(n \<mapsto> ?t))(n \<mapsto> ?t\<lparr>rows := rows ?t @ rs\<rparr>))"
    by (rule Cons.IH) simp
  then show ?case using Cons.prems by (simp add: fun_eq_iff)
qed

lemma exec_all_to_sql:
  "exec_all (to_sql_statements n df s) s = (None, s(n \<mapsto> df))"
proof (cases "s n")
  case None
  have df: "\<lparr>columns = columns df, rows = rows df\<rparr> = df" by simp
  from None show ?thesis
    using exec_all_inserts [of "s(n \<mapsto> \<lparr>columns = columns df, rows = []\<rparr>)" n "\<lparr>columns = columns df, rows = []\<rparr>" "rows df"]
    by (simp add: to_sql_statements_def df)
next
  case (Some t)
  have df: "\<lparr>columns = columns df, rows = rows df\<rparr> = df" by simp
  from Some show ?thesis
    using exec_all_inserts [of "(s(n := None))(n \<mapsto> \<lparr>columns = columns df, rows = []\<rparr>)" n "\<lparr>columns = columns df, rows = []\<rparr>" "rows df"]
    by (simp add: to_sql_statements_def df)
qed

lemma exec_all_prefix:
  "exec_all (xs @ ys) s = (None, s') \<Longrightarrow> fst (exec_all xs s) = None"
  by (auto simp: exec_all_append split: prod.splits option.splits)

lemma exec_all_take_to_sql:
  "fst (exec_all (take k (to_sql_statements n df s)) s) = None"
  using exec_all_prefix [of "take k (to_sql_statements n df s)" "drop k (to_sql_statements n df s)" s]
  by (simp add: exec_all_to_sql)

lemma to_sql_no_fault: "to_sql n df None s = (None, s(n \<mapsto> df))"
  by (simp add: to_sql_def exec_all_to_sql)

lemma to_sql_fault: "fst (to_sql n df (Some (k, e)) s) = Some e"
  using exec_all_take_to_sql [of k n df s]
  by (auto simp: to_sql_def split: prod.splits option.splits)

lemma engine_begin_to_sql:
  "engine_begin (to_sql n df fault) s =
     (case fault of None \<Rightarrow> (None, s(n \<mapsto> df)) | Some (k, e) \<Rightarrow> (Some e, s))"
proof (cases fault)
  case None
  then show ?thesis by (simp add: engine_begin_def to_sql_no_fault)
next
  case (Some p)
  obtain k e where p: "p = (k, e)" by (cases p)
  show ?thesis using to_sql_fault [of n df k e s] Some p
    by (auto simp: engine_begin_def split: prod.splits option.splits)
qed


lemma to_sql_statements_ddl:
  "to_sql_statements t df s = to_sql_ddl t df s @ map (Insert_row t) (rows df)"
  by (simp add: to_sql_statements_def to_sql_ddl_def)

lemma exec_all_take_ddl: "fst (exec_all (take k (to_sql_ddl t df s)) s) = None"
proof -
  have "to_sql_statements t df s =
      take k (to_sql_ddl t df s) @ (drop k (to_sql_ddl t df s) @ map (Insert_row t) (rows df))"
    by (simp add: to_sql_statements_ddl)
  then have "exec_all (take k (to_sql_ddl t df s)
      @ (drop k (to_sql_ddl t df s) @ map (Insert_row t) (rows df))) s = (None, s(t \<mapsto> df))"
    using exec_all_to_sql [of t df s] by simp
  then show ?thesis by (rule exec_all_prefix)
qed

lemma to_sql_on_engine_no_fault: "to_sql_on_engine t df None s = (None, s(t \<mapsto> df))"
  by (simp add: to_sql_on_engine_def exec_all_to_sql)

lemma to_sql_on_engine_fault:
  "to_sql_on_engine t df (Some (k, e)) s = (Some e, snd (exec_all (take k (to_sql_ddl t df s)) s))"
  using exec_all_take_ddl [of k t df s]
  by (auto simp: to_sql_on_engine_def split: prod.splits option.splits)

section \<open>The loop: what it does, file by file\<close>

lemma load_file_step:
  "derive_table_name lower f \<notin> S \<Longrightarrow> is_candidate f \<Longrightarrow>
   load_file env f (os_path_join data_folder f) (derive_table_name lower f) w = file_step lower env S f w"
  by (auto simp: load_file_def file_step_def file_store_def file_frame_def file_loaded_def
      file_outcome_def file_io_def engine_begin_to_sql Let_def
      split: sum.splits option.splits prod.splits)

lemma process_file_cached:
  "info_cache w = Some S \<Longrightarrow> process_file lower env f w = (None, file_step lower env S f w)"
proof (cases "is_candidate f")
  case False
  then show ?thesis by (simp add: process_file_def file_step_def)
next
  case cand: True
  assume c: "info_cache w = Some S"
  show ?thesis
  proof (cases "derive_table_name lower f \<in> S")
    case True
    with cand c show ?thesis
      by (simp add: process_file_def get_table_names_def file_step_def file_store_def
          file_loaded_def file_outcome_def file_io_def)
  next
    case False
    with cand c show ?thesis
      by (simp add: process_file_def get_table_names_def load_file_step)
  qed
qed

lemma info_cache_file_step [simp]: "info_cache (file_step lower env S f w) = info_cache w"
  by (simp add: file_step_def)

lemma info_cache_fold_file_step [simp]:
  "info_cache (fold (file_step lower env S) fs w) = info_cache w"
  by (induction fs arbitrary: w) simp_all

lemma ingest_loop_cached:
  "info_cache w = Some S \<Longrightarrow> ingest_loop lower env fs w = (None, fold (file_step lower env S) fs w)"
  by (induction fs arbitrary: w) (simp_all add: process_file_cached)

lemma process_file_first:
  assumes "info_cache w = None" and "reflect_error env = None" and "is_candidate f"
  shows "process_file lower env f w =
           (None, file_step lower env (dom (db w)) f
                    (w\<lparr>info_cache := Some (dom (db w)), io := io w @ [Reflect_tables]\<rparr>))"
proof (cases "derive_table_name lower f \<in> dom (db w)")
  case True
  with assms show ?thesis
    by (simp add: process_file_def get_table_names_def file_step_def file_store_def
        file_loaded_def file_outcome_def file_io_def)
next
  case False
  with assms show ?thesis
    by (simp add: process_file_def get_table_names_def load_file_step)
qed

lemma process_file_other: "\<not> is_candidate f \<Longrightarrow> process_file lower env f w = (None, w)"
  by (simp add: process_file_def)

lemma db_fold_file_step:
  "db (fold (file_step lower env S) fs w) = fold (file_store lower env S) (filter is_candidate fs) (db w)"
  by (induction fs arbitrary: w) (simp_all add: file_step_def)

lemma ui_fold_file_step:
  "ui (fold (file_step lower env S) fs w) = ui w @ map (file_outcome lower env S) (filter is_candidate fs)"
  by (induction fs arbitrary: w) (simp_all add: file_step_def)

lemma io_fold_file_step:
  "io (fold (file_step lower env S) fs w) = io w @ concat (map (file_io lower env S) (filter is_candidate fs))"
  by (induction fs arbitrary: w) (simp_all add: file_step_def)

lemma files_loaded_fold_file_step:
  "files_loaded (fold (file_step lower env S) fs w) =
     files_loaded w @ concat (map (file_loaded lower env S) (filter is_candidate fs))"
  by (induction fs arbitrary: w) (simp_all add: file_step_def)

lemma session_fold_file_step [simp]:
  "session_data_loaded (fold (file_step lower env S) fs w) = session_data_loaded w"
  "session_files_loaded (fold (file_step lower env S) fs w) = session_files_loaded w"
  "session_engine (fold (file_step lower env S) fs w) = session_engine w"
  "cache_data (fold (file_step lower env S) fs w) = cache_data w"
  by (induction fs arbitrary: w) (simp_all add: file_step_def)

lemma ingest_loop_fresh:
  assumes "info_cache w = None" and "reflect_error env = None"
  shows "ingest_loop lower env fs w =
           (None, if filter is_candidate fs = [] then w
                  else fold (file_step lower env (dom (db w))) fs
                         (w\<lparr>info_cache := Some (dom (db w)), io := io w @ [Reflect_tables]\<rparr>))"
  using assms
proof (induction fs arbitrary: w)
  case Nil
  then show ?case by simp
next
  case (Cons f fs)
  show ?case
  proof (cases "is_candidate f")
    case True
    then show ?thesis
      using Cons.prems by (simp add: process_file_first ingest_loop_cached)
  next
    case False
    then show ?thesis
      using Cons.prems Cons.IH [of w] by (simp add: process_file_other file_step_def)
  qed
qed

text \<open>The loop from a world whose inspector can answer.\<close>

lemma ingest_loop_run:
  assumes "info_cache w = None \<longrightarrow> reflect_error env = None"
  shows "fst (ingest_loop lower env fs w) = None"
    and "db (snd (ingest_loop lower env fs w)) =
           fold (file_store lower env (snapshot w)) (filter is_candidate fs) (db w)"
    and "ui (snd (ingest_loop lower env fs w)) =
           ui w @ map (file_outcome lower env (snapshot w)) (filter is_candidate fs)"
    and "io (snd (ingest_loop lower env fs w)) =
           io w @ (if info_cache w = None \<and> filter is_candidate fs \<noteq> [] then [Reflect_tables] else [])
                @ concat (map (file_io lower env (snapshot w)) (filter is_candidate fs))"
    and "files_loaded (snd (ingest_loop lower env fs w)) =
           files_loaded w @ concat (map (file_loaded lower env (snapshot w)) (filter is_candidate fs))"
    and "session_data_loaded (snd (ingest_loop lower env fs w)) = session_data_loaded w"
    and "session_files_loaded (snd (ingest_loop lower env fs w)) = session_files_loaded w"
    and "cache_data (snd (ingest_loop lower env fs w)) = cache_data w"
proof -
  consider (cached) S where "info_cache w = Some S"
    | (fresh) "info_cache w = None" "reflect_error env = None"
    using assms by (cases "info_cache w") auto
  then have "fst (ingest_loop lower env fs w) = None
    \<and> db (snd (ingest_loop lower env fs w)) =
           fold (file_store lower env (snapshot w)) (filter is_candidate fs) (db w)
    \<and> ui (snd (ingest_loop lower env fs w)) =
           ui w @ map (file_outcome lower env (snapshot w)) (filter is_candidate fs)
    \<and> io (snd (ingest_loop lower env fs w)) =
           io w @ (if info_cache w = None \<and> filter is_candidate fs \<noteq> [] then [Reflect_tables] else [])
                @ concat (map (file_io lower env (snapshot w)) (filter is_candidate fs))
    \<and> files_loaded (snd (ingest_loop lower env fs w)) =
           files_loaded w @ concat (map (file_loaded lower env (snapshot w)) (filter is_candidate fs))
    \<and> session_data_loaded (snd (ingest_loop lower env fs w)) = session_data_loaded w
    \<and> session_files_loaded (snd (ingest_loop lower env fs w)) = session_files_loaded w
    \<and> cache_data (snd (ingest_loop lower env fs w)) = cache_data w"
  proof cases
    case cached
    then show ?thesis
      by (simp add: ingest_loop_cached snapshot_def db_fold_file_step ui_fold_file_step
          io_fold_file_step files_loaded_fold_file_step)
  next
    case fresh
    then show ?thesis
      by (simp add: ingest_loop_fresh snapshot_def db_fold_file_step ui_fold_file_step
          io_fold_file_step files_loaded_fold_file_step)
  qed
  then show "fst (ingest_loop lower env fs w) = None"
    and "db (snd (ingest_loop lower env fs w)) =
           fold (file_store lower env (snapshot w)) (filter is_candidate fs) (db w)"
    and "ui (snd (ingest_loop lower env fs w)) =
           ui w @ map (file_outcome lower env (snapshot w)) (filter is_candidate fs)"
    and "io (snd (ingest_loop lower env fs w)) =
           io w @ (if info_cache w = None \<and> filter is_candidate fs \<noteq> [] then [Reflect_tables] else [])
                @ concat (map (file_io lower env (snapshot w)) (filter is_candidate fs))"
    and "files_loaded (snd (ingest_loop lower env fs w)) =
           files_loaded w @ concat (map (file_loaded lower env (snapshot w)) (filter is_candidate fs))"
    and "session_data_loaded (snd (ingest_loop lower env fs w)) = session_data_loaded w"
    and "session_files_loaded (snd (ingest_loop lower env fs w)) = session_files_loaded w"
    and "cache_data (snd (ingest_loop lower env fs w)) = cache_data w"
    by simp_all
qed

lemma snapshot_files_loaded [simp]: "snapshot (w\<lparr>files_loaded := x\<rparr>) = snapshot w"
  by (simp add: snapshot_def split: option.splits)

lemma candidates_Inr: "listdir env = Inr names \<Longrightarrow> candidates env = filter is_candidate names"
  by (simp add: candidates_def)

lemma candidates_Inl: "listdir env = Inl e \<Longrightarrow> candidates env = []"
  by (simp add: candidates_def)

lemma listdir_returns_iff: "listdir_returns env \<longleftrightarrow> (\<exists>names. listdir env = Inr names)"
  by (cases "listdir env") (simp_all add: listdir_returns_def)

lemma candidates_listdir_returns: "candidates env \<noteq> [] \<Longrightarrow> listdir_returns env"
  by (cases "listdir env") (simp_all add: listdir_returns_def candidates_def)

lemma nth_candidates_listdir_returns: "i < length (candidates env) \<Longrightarrow> listdir_returns env"
  by (rule candidates_listdir_returns) auto

lemma ingest_all_unlistable:
  "dir_exists env \<Longrightarrow> listdir env = Inl e \<Longrightarrow>
   ingest_all lower env w = (Some e, w\<lparr>files_loaded := []\<rparr>)"
  by (simp add: ingest_all_def)

lemma ingest_all_run:
  assumes "dir_exists env" and "info_cache w = None \<longrightarrow> reflect_error env = None"
    and "listdir_returns env"
  shows "fst (ingest_all lower env w) = None"
    and "db (snd (ingest_all lower env w)) = fold (file_store lower env (snapshot w)) (candidates env) (db w)"
    and "ui (snd (ingest_all lower env w)) = ui w @ map (file_outcome lower env (snapshot w)) (candidates env)"
    and "io (snd (ingest_all lower env w)) =
           io w @ (if info_cache w = None \<and> candidates env \<noteq> [] then [Reflect_tables] else [])
                @ concat (map (file_io lower env (snapshot w)) (candidates env))"
    and "session_data_loaded (snd (ingest_all lower env w))"
    and "session_files_loaded (snd (ingest_all lower env w)) =
           Some (concat (map (file_loaded lower env (snapshot w)) (candidates env)))"
    and "cache_data (snd (ingest_all lower env w)) = cache_data w"
proof -
  let ?w0 = "w\<lparr>files_loaded := []\<rparr>"
  from assms(3) obtain names where names: "listdir env = Inr names"
    by (auto simp: listdir_returns_iff)
  have cs: "candidates env = filter is_candidate names"
    using names by (rule candidates_Inr)
  have c: "info_cache ?w0 = None \<longrightarrow> reflect_error env = None"
    using assms(2) by simp
  obtain w' where w': "ingest_loop lower env names ?w0 = (None, w')"
    using ingest_loop_run(1) [OF c, of lower names]
    by (cases "ingest_loop lower env names ?w0") auto
  have all: "ingest_all lower env w =
      (None, w'\<lparr>session_data_loaded := True, session_files_loaded := Some (files_loaded w')\<rparr>)"
    using assms(1) names w' by (simp add: ingest_all_def)
  have snd: "w' = snd (ingest_loop lower env names ?w0)"
    using w' by simp
  show "fst (ingest_all lower env w) = None" by (simp add: all)
  show "db (snd (ingest_all lower env w)) = fold (file_store lower env (snapshot w)) (candidates env) (db w)"
    using ingest_loop_run(2) [OF c, of lower names] by (simp add: all snd cs)
  show "ui (snd (ingest_all lower env w)) = ui w @ map (file_outcome lower env (snapshot w)) (candidates env)"
    using ingest_loop_run(3) [OF c, of lower names] by (simp add: all snd cs)
  show "io (snd (ingest_all lower env w)) =
           io w @ (if info_cache w = None \<and> candidates env \<noteq> [] then [Reflect_tables] else [])
                @ concat (map (file_io lower env (snapshot w)) (candidates env))"
    using ingest_loop_run(4) [OF c, of lower names] by (simp add: all snd cs)
  show "session_data_loaded (snd (ingest_all lower env w))" by (simp add: all)
  show "session_files_loaded (snd (ingest_all lower env w)) =
           Some (concat (map (file_loaded lower env (snapshot w)) (candidates env)))"
    using ingest_loop_run(5) [OF c, of lower names] by (simp add: all snd cs)
  show "cache_data (snd (ingest_all lower env w)) = cache_data w"
    using ingest_loop_run(8) [OF c, of lower names] by (simp add: all snd)
qed

lemma ingest_all_db_ui:
  assumes "dir_exists env" and "info_cache w = None \<longrightarrow> reflect_error env = None"
  shows "db (snd (ingest_all lower env w)) =
           fold (file_store lower env (snapshot w)) (candidates env) (db w)"
    and "ui (snd (ingest_all lower env w)) =
           ui w @ map (file_outcome lower env (snapshot w)) (candidates env)"
proof -
  have "db (snd (ingest_all lower env w)) =
           fold (file_store lower env (snapshot w)) (candidates env) (db w)
      \<and> ui (snd (ingest_all lower env w)) =
           ui w @ map (file_outcome lower env (snapshot w)) (candidates env)"
  proof (cases "listdir env")
    case (Inl e)
    then show ?thesis
      using assms(1) by (simp add: ingest_all_unlistable candidates_Inl)
  next
    case (Inr names)
    then have "listdir_returns env" by (simp add: listdir_returns_def)
    then show ?thesis
      using assms by (simp add: ingest_all_run)
  qed
  then show "db (snd (ingest_all lower env w)) =
           fold (file_store lower env (snapshot w)) (candidates env) (db w)"
    and "ui (snd (ingest_all lower env w)) =
           ui w @ map (file_outcome lower env (snapshot w)) (candidates env)"
    by simp_all
qed

lemma os_path_join_inject [simp]: "os_path_join d f = os_path_join d g \<longleftrightarrow> f = g"
  by (simp add: os_path_join_def)

lemma fold_file_store_snapshot:
  "t \<in> S \<Longrightarrow> fold (file_store lower env S) fs s t = s t"
  by (induction fs arbitrary: s) (auto simp: file_store_def split: option.splits)

lemma fold_file_store_other:
  "t \<notin> derive_table_name lower ` set fs \<Longrightarrow> fold (file_store lower env S) fs s t = s t"
  by (induction fs arbitrary: s) (auto simp: file_store_def split: option.splits)

lemma read_in_file_io:
  "Read_csv p \<in> set (file_io lower env S g) \<Longrightarrow> p = os_path_join data_folder g \<and> derive_table_name lower g \<notin> S"
  by (auto simp: file_io_def split: if_splits sum.splits)

lemma begin_in_file_io:
  "Begin_txn t \<in> set (file_io lower env S g) \<Longrightarrow> t = derive_table_name lower g \<and> t \<notin> S"
  by (auto simp: file_io_def split: if_splits sum.splits)

section \<open>One file, one load\<close>

lemma process_file_run:
  assumes "is_candidate f" and "info_cache w = None \<longrightarrow> reflect_error env = None"
  shows "fst (process_file lower env f w) = None"
    and "db (snd (process_file lower env f w)) = file_store lower env (snapshot w) f (db w)"
    and "ui (snd (process_file lower env f w)) = ui w @ [file_outcome lower env (snapshot w) f]"
proof -
  have "fst (process_file lower env f w) = None
      \<and> db (snd (process_file lower env f w)) = file_store lower env (snapshot w) f (db w)
      \<and> ui (snd (process_file lower env f w)) = ui w @ [file_outcome lower env (snapshot w) f]"
  proof (cases "info_cache w")
    case None
    with assms show ?thesis
      by (simp add: process_file_first snapshot_def file_step_def)
  next
    case (Some S)
    with assms show ?thesis
      by (simp add: process_file_cached snapshot_def file_step_def)
  qed
  then show "fst (process_file lower env f w) = None"
    and "db (snd (process_file lower env f w)) = file_store lower env (snapshot w) f (db w)"
    and "ui (snd (process_file lower env f w)) = ui w @ [file_outcome lower env (snapshot w) f]"
    by simp_all
qed

lemma load_csv_to_db_body_db:
  "db (snd (load_csv_to_db_body env file t w)) =
     (case read_csv env file of
        Inl e \<Rightarrow> db w
      | Inr df \<Rightarrow>
          (case write_fault env file of
             None \<Rightarrow> (db w)(t \<mapsto> df)
           | Some (k, e) \<Rightarrow> snd (exec_all (take k (to_sql_ddl t df (db w))) (db w))))"
  by (auto simp: load_csv_to_db_body_def to_sql_on_engine_no_fault to_sql_on_engine_fault Let_def
      split: sum.splits option.splits prod.splits)

lemma load_csv_to_db_body_result:
  "fst (load_csv_to_db_body env file t w) =
     (case read_csv env file of
        Inl e \<Rightarrow> Inl e
      | Inr df \<Rightarrow> (case write_fault env file of None \<Rightarrow> Inr (t, len df) | Some (k, e) \<Rightarrow> Inl e))"
  by (auto simp: load_csv_to_db_body_def to_sql_on_engine_no_fault to_sql_on_engine_fault Let_def
      split: sum.splits option.splits prod.splits)

lemma load_file_db:
  "db (load_file env f file t w) =
     (case read_csv env file of
        Inl e \<Rightarrow> db w
      | Inr df \<Rightarrow> (case write_fault env file of None \<Rightarrow> (db w)(t \<mapsto> df) | Some fault \<Rightarrow> db w))"
  by (auto simp: load_file_def engine_begin_to_sql Let_def
      split: sum.splits option.splits prod.splits)

lemma load_csv_to_db_body_env [simp]:
  "cache_data (snd (load_csv_to_db_body env file t w)) = cache_data w"
  by (auto simp: load_csv_to_db_body_def Let_def
      split: sum.splits option.splits prod.splits)

section \<open>Tables are never removed by a run\<close>

lemma dom_fold_file_store: "dom s \<subseteq> dom (fold (file_store lower env S) fs s)"
proof (induction fs arbitrary: s)
  case Nil
  show ?case by simp
next
  case (Cons f fs)
  have "dom s \<subseteq> dom (file_store lower env S f s)"
    by (auto simp: file_store_def split: option.splits)
  also have "\<dots> \<subseteq> dom (fold (file_store lower env S) fs (file_store lower env S f s))"
    by (rule Cons.IH)
  finally show ?case by simp
qed

lemma loaded_in_dom:
  assumes "f \<in> set fs" and "derive_table_name lower f \<notin> S" and "file_frame env f = Some df"
  shows "derive_table_name lower f \<in> dom (fold (file_store lower env S) fs s)"
  using assms(1)
proof (induction fs arbitrary: s)
  case Nil
  then show ?case by simp
next
  case (Cons g fs)
  show ?case
  proof (cases "f = g")
    case True
    have "derive_table_name lower f \<in> dom (file_store lower env S f s)"
      using assms(2,3) by (simp add: file_store_def)
    then show ?thesis
      using dom_fold_file_store [of "file_store lower env S f s" lower env S fs] True by auto
  next
    case False
    with Cons.prems have "f \<in> set fs" by simp
    then show ?thesis using Cons.IH by simp
  qed
qed

lemma fold_fixed:
  "(\<And>x t. x \<in> set xs \<Longrightarrow> g x t = t) \<Longrightarrow> fold g xs s = s"
  by (induction xs arbitrary: s) simp_all

lemma new_session_simps [simp]:
  "db (new_session w) = db w" "info_cache (new_session w) = None" "ui (new_session w) = []"
  "io (new_session w) = []" "snapshot (new_session w) = dom (db w)"
  "session_data_loaded (new_session w) = False" "cache_data (new_session w) = cache_data w"
  by (simp_all add: new_session_def snapshot_def)

lemma file_frame_cong:
  "read_csv env2 = read_csv env1 \<Longrightarrow> write_fault env2 = write_fault env1 \<Longrightarrow>
   file_frame env2 f = file_frame env1 f"
  by (simp only: file_frame_def)

lemma file_outcome_Loaded:
  "file_outcome lower env S f = Loaded t n \<Longrightarrow>
   t = derive_table_name lower f \<and> derive_table_name lower f \<notin> S \<and> file_frame env f \<noteq> None"
  by (auto simp: file_outcome_def file_frame_def split: if_splits sum.splits option.splits)

section \<open>The script and its gate\<close>

lemma process_file_reflect_error:
  "info_cache w = None \<Longrightarrow> reflect_error env = Some e \<Longrightarrow> is_candidate f \<Longrightarrow>
   process_file lower env f w = (Some e, w)"
  by (simp add: process_file_def get_table_names_def)

lemma ingest_loop_reflect_error:
  assumes "info_cache w = None" and "reflect_error env = Some e"
  shows "ingest_loop lower env fs w = (if filter is_candidate fs = [] then (None, w) else (Some e, w))"
  using assms
  by (induction fs) (simp_all add: process_file_reflect_error process_file_other)

lemma handle_outer_simps [simp]:
  "session_data_loaded (handle_outer e w) = session_data_loaded w"
  "db (handle_outer e w) = db w"
  by (simp_all add: handle_outer_def)

lemma script_run_sets_flag:
  assumes "\<not> session_data_loaded w" and "engine_error env = None" and "inspect_error env = None"
    and "dir_exists env" and "listdir_returns env"
    and "reflect_error env = None \<or> candidates env = []"
  shows "session_data_loaded (script_run lower env w)"
proof -
  let ?w = "w\<lparr>session_engine := True, info_cache := None\<rparr>"
  have "fst (ingest_all lower env ?w) = None \<and> session_data_loaded (snd (ingest_all lower env ?w))"
  proof (cases "reflect_error env")
    case None
    then show ?thesis using assms(4,5) by (simp add: ingest_all_run)
  next
    case (Some e)
    from assms(5) obtain names where names: "listdir env = Inr names"
      by (auto simp: listdir_returns_iff)
    with Some assms(6) have "filter is_candidate names = []"
      by (simp add: candidates_def)
    then show ?thesis
      using Some assms(4) names by (simp add: ingest_all_def ingest_loop_reflect_error)
  qed
  then show ?thesis
    using assms(1,2,3) by (auto simp: script_run_def split: prod.splits option.splits)
qed

lemma script_run_gate: "session_data_loaded w \<Longrightarrow> script_run lower env w = w"
  by (simp add: script_run_def)

lemma script_run_keeps_flag_unset:
  assumes "\<not> session_data_loaded w"
    and "\<not> dir_exists env \<or> engine_error env \<noteq> None \<or> inspect_error env \<noteq> None
         \<or> \<not> listdir_returns env
         \<or> (reflect_error env \<noteq> None \<and> candidates env \<noteq> [])"
  shows "\<not> session_data_loaded (script_run lower env w) \<and> db (script_run lower env w) = db w"
proof (cases "engine_error env")
  case (Some e)
  then show ?thesis using assms(1) by (simp add: script_run_def)
next
  case eng: None
  show ?thesis
  proof (cases "inspect_error env")
    case (Some e)
    then show ?thesis using assms(1) eng by (simp add: script_run_def)
  next
    case ins: None
    show ?thesis
    proof (cases "dir_exists env")
      case False
      then show ?thesis using assms(1) eng ins by (simp add: script_run_def ingest_all_def)
    next
      case True
      show ?thesis
      proof (cases "listdir env")
        case (Inl e)
        then show ?thesis
          using assms(1) eng ins True by (simp add: script_run_def ingest_all_unlistable)
      next
        case (Inr names)
        with assms(2) eng ins True obtain e where e: "reflect_error env = Some e"
          and c: "filter is_candidate names \<noteq> []"
          by (auto simp: candidates_def listdir_returns_def)
        show ?thesis
          using assms(1) eng ins True Inr e c
          by (simp add: script_run_def ingest_all_def ingest_loop_reflect_error)
      qed
    qed
  qed
qed

section \<open>Files that share a table name\<close>

lemma fold_file_store_unloaded:
  "(\<And>f. f \<in> set fs \<Longrightarrow> derive_table_name lower f = t \<Longrightarrow> file_frame env f = None) \<Longrightarrow>
   fold (file_store lower env S) fs s t = s t"
proof (induction fs arbitrary: s)
  case Nil
  show ?case by simp
next
  case (Cons g fs)
  have "file_store lower env S g s t = s t"
    using Cons.prems [of g] by (auto simp: file_store_def split: option.splits)
  moreover have "fold (file_store lower env S) fs (file_store lower env S g s) t = file_store lower env S g s t"
    using Cons.prems by (intro Cons.IH) simp_all
  ultimately show ?case by simp
qed

lemma fold_file_store_last:
  assumes "j < length fs" and "derive_table_name lower (fs ! j) = t" and "t \<notin> S"
    and "file_frame env (fs ! j) = Some df"
    and "\<And>f. f \<in> set (drop (Suc j) fs) \<Longrightarrow> derive_table_name lower f = t \<Longrightarrow> file_frame env f = None"
  shows "fold (file_store lower env S) fs s t = Some df"
proof -
  have fs: "fs = take j fs @ fs ! j # drop (Suc j) fs"
    using assms(1) by (rule id_take_nth_drop)
  let ?s1 = "fold (file_store lower env S) (take j fs) s"
  have "fold (file_store lower env S) fs s =
          fold (file_store lower env S) (drop (Suc j) fs) (file_store lower env S (fs ! j) ?s1)"
    by (subst fs) simp
  moreover have "fold (file_store lower env S) (drop (Suc j) fs) (file_store lower env S (fs ! j) ?s1) t =
      file_store lower env S (fs ! j) ?s1 t"
    using assms(5) by (rule fold_file_store_unloaded)
  moreover have "file_store lower env S (fs ! j) ?s1 t = Some df"
    using assms(2,3,4) by (auto simp: file_store_def)
  ultimately show ?thesis by simp
qed

lemma no_reflect_in_file_io: "Reflect_tables \<notin> set (file_io lower env S f)"
  by (simp add: file_io_def split: sum.splits)

lemma count_reflect_file_io:
  "count_list (concat (map (file_io lower env S) fs)) Reflect_tables = 0"
  by (simp add: count_list_0_iff no_reflect_in_file_io)

lemma read_of_unskipped:
  "derive_table_name lower f \<notin> S \<Longrightarrow> Read_csv (os_path_join data_folder f) \<in> set (file_io lower env S f)"
  by (simp add: file_io_def split: sum.splits)

lemma file_outcome_Skipped:
  "(file_outcome lower env S f = Skipped_AlreadyExists t') \<longleftrightarrow>
     (derive_table_name lower f \<in> S \<and> t' = derive_table_name lower f)"
  by (auto simp: file_outcome_def split: sum.splits option.splits)

lemma file_outcome_frame:
  "derive_table_name lower f \<notin> S \<Longrightarrow> file_frame env f = Some df \<Longrightarrow>
   file_outcome lower env S f = Loaded (derive_table_name lower f) (len df)"
  by (auto simp: file_outcome_def file_frame_def split: sum.splits option.splits)

lemma process_file_io:
  assumes "is_candidate f" and "info_cache w = None \<longrightarrow> reflect_error env = None"
  shows "io (snd (process_file lower env f w)) =
           io w @ (if info_cache w = None then [Reflect_tables] else [])
                @ file_io lower env (snapshot w) f"
proof (cases "info_cache w")
  case None
  with assms show ?thesis
    by (simp add: process_file_first snapshot_def file_step_def)
next
  case (Some S)
  with assms show ?thesis
    by (simp add: process_file_cached snapshot_def file_step_def)
qed

lemma loaded_at_end:
  assumes "dir_exists env" and "info_cache w = None \<longrightarrow> reflect_error env = None"
    and "j < length (candidates env)"
    and "derive_table_name lower (candidates env ! j) \<notin> snapshot w"
    and "file_frame env (candidates env ! j) = Some df"
    and "\<And>g. g \<in> set (drop (Suc j) (candidates env)) \<Longrightarrow>
          derive_table_name lower g = derive_table_name lower (candidates env ! j) \<Longrightarrow>
          file_frame env g = None"
  shows "ui (snd (ingest_all lower env w)) ! (length (ui w) + j) =
           Loaded (derive_table_name lower (candidates env ! j)) (length (rows df))"
    and "db (snd (ingest_all lower env w)) (derive_table_name lower (candidates env ! j)) = Some df"
proof -
  show "ui (snd (ingest_all lower env w)) ! (length (ui w) + j) =
      Loaded (derive_table_name lower (candidates env ! j)) (length (rows df))"
    using assms(3,4,5) ingest_all_run(3) [OF assms(1,2) nth_candidates_listdir_returns [OF assms(3)]]
    by (simp add: file_outcome_frame len_def)
  have "fold (file_store lower env (snapshot w)) (candidates env) (db w)
      (derive_table_name lower (candidates env ! j)) = Some df"
    using assms(3) _ assms(4,5,6) by (rule fold_file_store_last) simp
  then show "db (snd (ingest_all lower env w)) (derive_table_name lower (candidates env ! j)) = Some df"
    using ingest_all_run(2) [OF assms(1,2) nth_candidates_listdir_returns [OF assms(3)]] by simp
qed

section \<open>The example runs, evaluated\<close>

lemma derive_ex [simp]:
  "derive_table_name ascii_lower ''A.csv'' = ''a''"
  "derive_table_name ascii_lower ''a.csv'' = ''a''"
  "derive_table_name ascii_lower ''b.csv'' = ''b''"
  by code_simp+

lemma is_candidate_ex [simp]:
  "is_candidate ''A.csv''" "is_candidate ''a.csv''" "is_candidate ''b.csv''"
  "\<not> is_candidate ''n.txt''"
  by code_simp+

lemma path_ex [simp]:
  "os_path_join data_folder f = ''data/'' @ f"
  by (simp add: os_path_join_def data_folder_def)

lemma env_ex_simps [simp]:
  "dir_exists env_ex" "reflect_error env_ex = None" "engine_error env_ex = None"
  "inspect_error env_ex = None" "listdir_returns env_ex"
  "candidates env_ex = [''A.csv'', ''a.csv'', ''b.csv'']"
  "read_csv env_ex = files_ex" "write_fault env_ex p = None"
  by (simp_all add: env_ex_def candidates_def listdir_returns_def)

lemma world_ex_simps [simp]:
  "db world_ex = Map.empty" "info_cache world_ex = None" "ui world_ex = []" "io world_ex = []"
  "snapshot world_ex = {}" "session_data_loaded world_ex = False"
  by (simp_all add: world_ex_def snapshot_def)

lemma files_ex_simps [simp]:
  "files_ex ''data/A.csv'' = Inr df_A" "files_ex ''data/a.csv'' = Inr df_a"
  "files_ex ''data/b.csv'' = Inl (OtherException ''parse error'')"
  by (simp_all add: files_ex_def)

lemma len_ex [simp]: "len df_A = 2" "len df_a = 1"
  by (simp_all add: len_def df_A_def df_a_def)

lemma world_old_simps [simp]:
  "db world_old = [''a'' \<mapsto> df_A]" "info_cache world_old = None" "ui world_old = []"
  "io world_old = []" "snapshot world_old = {''a''}" "session_data_loaded world_old = False"
  by (simp_all add: world_old_def snapshot_def world_ex_def)

lemma env_fault_simps [simp]:
  "dir_exists env_fault" "reflect_error env_fault = None" "engine_error env_fault = None"
  "inspect_error env_fault = None" "listdir_returns env_fault"
  "candidates env_fault = [''A.csv'', ''a.csv'', ''b.csv'']"
  "read_csv env_fault = files_ex"
  "write_fault env_fault ''data/A.csv'' = None"
  "write_fault env_fault ''data/a.csv'' = Some (1, lost)"
  "write_fault env_fault ''data/b.csv'' = None"
  by (simp_all add: env_fault_def env_ex_def candidates_def listdir_returns_def)

lemma env_allfail_simps [simp]:
  "dir_exists env_allfail" "reflect_error env_allfail = None" "engine_error env_allfail = None"
  "inspect_error env_allfail = None" "listdir_returns env_allfail"
  "candidates env_allfail = [''A.csv'', ''a.csv'', ''b.csv'']"
  "read_csv env_allfail p = Inl (OtherException ''parse error'')"
  by (simp_all add: env_allfail_def env_ex_def candidates_def listdir_returns_def)

lemma env_unlistable_simps [simp]:
  "dir_exists env_unlistable" "reflect_error env_unlistable = None"
  "engine_error env_unlistable = None" "inspect_error env_unlistable = None"
  "\<not> listdir_returns env_unlistable" "candidates env_unlistable = []"
  "listdir env_unlistable = Inl (OtherException ''Permission denied'')"
  by (simp_all add: env_unlistable_def env_ex_def candidates_def listdir_returns_def)

lemma world_mid_simps [simp]:
  "db world_mid = [''a'' \<mapsto> df_A]" "info_cache world_mid = Some {}"
  "ui world_mid = [Loaded ''a'' 2]" "snapshot world_mid = {}"
  "io world_mid = [Reflect_tables, Read_csv ''data/A.csv'', Begin_txn ''a'']"
  by (simp_all add: world_mid_def world_ex_def snapshot_def)

lemma world_mid_reached: "snd (process_file ascii_lower env_fault ''A.csv'' world_ex) = world_mid"
  by (simp add: process_file_first file_step_def file_store_def file_frame_def file_loaded_def
      file_outcome_def file_io_def world_mid_def world_ex_def)

section \<open>Directory-level failure\<close>

text \<open>
  C6. When the data directory does not exist, \<^verbatim>\<open>ingest_all\<close> shows the one message
  "Data directory not found" and does nothing else: no exception leaves it, the store is
  as before, no file is read and no transaction opened (the log of outside calls is as
  before), the session gets neither \<^verbatim>\<open>data_loaded\<close> nor \<^verbatim>\<open>files_loaded\<close>, so no
  report, not even a partial one, exists. The loop of \<^verbatim>\<open>data_injection.py\<close> does the
  same once its engine is created.
\<close>

theorem directory_not_found_is_fatal:
  assumes "\<not> dir_exists env"
  shows "ingest_all lower env w = (None, w\<lparr>ui := ui w @ [DirectoryNotFound data_folder]\<rparr>)
       \<and> db (snd (ingest_all lower env w)) = db w
       \<and> io (snd (ingest_all lower env w)) = io w
       \<and> session_data_loaded (snd (ingest_all lower env w)) = session_data_loaded w
       \<and> session_files_loaded (snd (ingest_all lower env w)) = session_files_loaded w
       \<and> (engine_error env = None \<longrightarrow>
            data_injection_main lower env w = (None, w\<lparr>ui := ui w @ [DirectoryNotFound data_folder]\<rparr>))"
  using assms by (simp add: ingest_all_def data_injection_main_def)

theorem directory_not_found_is_fatal_witness:
  "\<not> dir_exists env_nodir \<and> engine_error env_nodir = None
   \<and> ingest_all ascii_lower env_nodir world_ex = (None, world_ex\<lparr>ui := [DirectoryNotFound ''data'']\<rparr>)
   \<and> db (snd (ingest_all ascii_lower env_nodir world_ex)) = Map.empty
   \<and> io (snd (ingest_all ascii_lower env_nodir world_ex)) = []
   \<and> \<not> session_data_loaded (snd (ingest_all ascii_lower env_nodir world_ex))
   \<and> data_injection_main ascii_lower env_nodir world_ex =
        (None, world_ex\<lparr>ui := [DirectoryNotFound ''data'']\<rparr>)"
  using directory_not_found_is_fatal [of env_nodir ascii_lower world_ex]
  by (simp add: env_nodir_def env_ex_def data_folder_def)

section \<open>Skipping a table that exists\<close>

text \<open>
  C2. In a run whose inspector answers, take the candidate file at position \<open>i\<close> of the
  listing whose derived table name is in the set of existing tables. The message the run
  shows for it is "already exists, skipping"; among the outside calls of the run there is
  no read of that file and no transaction for that table; and the table is, after the
  run, what it was before.
\<close>

theorem skip_existing_table:
  assumes "dir_exists env" and "info_cache w = None \<longrightarrow> reflect_error env = None"
    and "i < length (candidates env)"
    and "derive_table_name lower (candidates env ! i) \<in> snapshot w"
  shows "ui (snd (ingest_all lower env w)) ! (length (ui w) + i) =
           Skipped_AlreadyExists (derive_table_name lower (candidates env ! i))
       \<and> Read_csv (os_path_join data_folder (candidates env ! i))
           \<notin> set (drop (length (io w)) (io (snd (ingest_all lower env w))))
       \<and> Begin_txn (derive_table_name lower (candidates env ! i))
           \<notin> set (drop (length (io w)) (io (snd (ingest_all lower env w))))
       \<and> db (snd (ingest_all lower env w)) (derive_table_name lower (candidates env ! i)) =
           db w (derive_table_name lower (candidates env ! i))"
proof -
  let ?f = "candidates env ! i"
  let ?S = "snapshot w"
  have lr: "listdir_returns env"
    using assms(3) by (rule nth_candidates_listdir_returns)
  have "ui (snd (ingest_all lower env w)) ! (length (ui w) + i) = file_outcome lower env ?S ?f"
    using assms lr by (simp add: ingest_all_run)
  then have skipped: "ui (snd (ingest_all lower env w)) ! (length (ui w) + i) =
      Skipped_AlreadyExists (derive_table_name lower ?f)"
    using assms(4) by (simp add: file_outcome_def)
  have no_read: "Read_csv (os_path_join data_folder ?f)
      \<notin> set (drop (length (io w)) (io (snd (ingest_all lower env w))))"
    using assms(1,2,4) lr by (auto simp: ingest_all_run dest: read_in_file_io)
  have no_txn: "Begin_txn (derive_table_name lower ?f)
      \<notin> set (drop (length (io w)) (io (snd (ingest_all lower env w))))"
    using assms(1,2,4) lr by (auto simp: ingest_all_run dest: begin_in_file_io)
  have same: "db (snd (ingest_all lower env w)) (derive_table_name lower ?f) = db w (derive_table_name lower ?f)"
    using assms(1,2,4) lr by (simp add: ingest_all_run fold_file_store_snapshot)
  from skipped no_read no_txn same show ?thesis by blast
qed

theorem skip_existing_table_witness:
  "dir_exists env_ex \<and> reflect_error env_ex = None
   \<and> (0::nat) < length (candidates env_ex)
   \<and> derive_table_name ascii_lower (candidates env_ex ! 0) \<in> snapshot world_old
   \<and> ui (snd (ingest_all ascii_lower env_ex world_old)) ! 0 = Skipped_AlreadyExists ''a''
   \<and> Read_csv ''data/A.csv'' \<notin> set (io (snd (ingest_all ascii_lower env_ex world_old)))
   \<and> Begin_txn ''a'' \<notin> set (io (snd (ingest_all ascii_lower env_ex world_old)))
   \<and> db (snd (ingest_all ascii_lower env_ex world_old)) ''a'' = Some df_A"
  using skip_existing_table [where env = env_ex and w = world_old and i = 0 and lower = ascii_lower]
  by simp

section \<open>Row counts\<close>

text \<open>
  C8. Take a candidate file that is not skipped, whose read returns a frame of \<open>N\<close> data
  rows and whose write meets no fault. The turn of the loop for it ends without an
  exception, the one message it adds is "loaded with \<open>N\<close> rows", and when it ends the
  table of the derived name holds that frame, so exactly \<open>N\<close> rows. The load primitive of
  \<^verbatim>\<open>data_injection.py\<close> returns the same count and leaves the same table. In a whole
  run the message at the position of the file reports \<open>N\<close>, and the table still holds the
  \<open>N\<close> rows when the run ends, provided no later file of the listing loads the same
  table.
\<close>

theorem row_count_fidelity:
  assumes "is_candidate f" and "info_cache w = None \<longrightarrow> reflect_error env = None"
    and "derive_table_name lower f \<notin> snapshot w"
    and "read_csv env (os_path_join data_folder f) = Inr df"
    and "write_fault env (os_path_join data_folder f) = None"
  shows "fst (process_file lower env f w) = None
       \<and> ui (snd (process_file lower env f w)) = ui w @ [Loaded (derive_table_name lower f) (length (rows df))]
       \<and> db (snd (process_file lower env f w)) (derive_table_name lower f) = Some df
       \<and> fst (load_csv_to_db_body env (os_path_join data_folder f) (derive_table_name lower f) w) =
           Inr (derive_table_name lower f, length (rows df))
       \<and> db (snd (load_csv_to_db_body env (os_path_join data_folder f) (derive_table_name lower f) w))
           (derive_table_name lower f) = Some df
       \<and> (\<forall>j. dir_exists env \<and> j < length (candidates env) \<and> candidates env ! j = f
              \<and> (\<forall>g. g \<in> set (drop (Suc j) (candidates env))
                       \<and> derive_table_name lower g = derive_table_name lower f
                     \<longrightarrow> file_frame env g = None)
            \<longrightarrow> ui (snd (ingest_all lower env w)) ! (length (ui w) + j) =
                  Loaded (derive_table_name lower f) (length (rows df))
              \<and> db (snd (ingest_all lower env w)) (derive_table_name lower f) = Some df)"
proof -
  have one: "fst (process_file lower env f w) = None
       \<and> ui (snd (process_file lower env f w)) = ui w @ [Loaded (derive_table_name lower f) (length (rows df))]
       \<and> db (snd (process_file lower env f w)) (derive_table_name lower f) = Some df
       \<and> fst (load_csv_to_db_body env (os_path_join data_folder f) (derive_table_name lower f) w) =
           Inr (derive_table_name lower f, length (rows df))
       \<and> db (snd (load_csv_to_db_body env (os_path_join data_folder f) (derive_table_name lower f) w))
           (derive_table_name lower f) = Some df"
    using assms
    by (simp add: process_file_run file_outcome_def file_store_def file_frame_def len_def
        load_csv_to_db_body_db load_csv_to_db_body_result)
  have fr: "file_frame env f = Some df"
    using assms(4,5) by (simp only: file_frame_def) simp
  have run: "ui (snd (ingest_all lower env w)) ! (length (ui w) + j) =
                  Loaded (derive_table_name lower f) (length (rows df))
              \<and> db (snd (ingest_all lower env w)) (derive_table_name lower f) = Some df"
    if "dir_exists env" and "j < length (candidates env)" and "candidates env ! j = f"
      and "\<forall>g. g \<in> set (drop (Suc j) (candidates env)) \<and> derive_table_name lower g = derive_table_name lower f
             \<longrightarrow> file_frame env g = None"
    for j
    using loaded_at_end [of env w j lower df] that assms(2,3) fr by blast
  from one run show ?thesis by blast
qed

theorem row_count_fidelity_witness:
  "is_candidate ''a.csv'' \<and> reflect_error env_ex = None
   \<and> derive_table_name ascii_lower ''a.csv'' \<notin> snapshot world_ex
   \<and> read_csv env_ex (os_path_join data_folder ''a.csv'') = Inr df_a
   \<and> write_fault env_ex (os_path_join data_folder ''a.csv'') = None
   \<and> length (rows df_a) = 1
   \<and> ui (snd (process_file ascii_lower env_ex ''a.csv'' world_ex)) = [Loaded ''a'' 1]
   \<and> db (snd (process_file ascii_lower env_ex ''a.csv'' world_ex)) ''a'' = Some df_a
   \<and> fst (load_csv_to_db_body env_ex ''data/a.csv'' ''a'' world_ex) = Inr (''a'', 1)
   \<and> dir_exists env_ex \<and> candidates env_ex ! 1 = ''a.csv''
   \<and> drop (Suc 1) (candidates env_ex) = [''b.csv'']
   \<and> ui (snd (ingest_all ascii_lower env_ex world_ex)) ! 1 = Loaded ''a'' 1
   \<and> db (snd (ingest_all ascii_lower env_ex world_ex)) ''a'' = Some df_a"
proof -
  have l: "length (rows df_a) = 1" by (simp add: df_a_def)
  note t = row_count_fidelity [where f = "''a.csv''" and w = world_ex and env = env_ex
      and df = df_a and lower = ascii_lower]
  have one: "ui (snd (process_file ascii_lower env_ex ''a.csv'' world_ex)) = [Loaded ''a'' 1]
      \<and> db (snd (process_file ascii_lower env_ex ''a.csv'' world_ex)) ''a'' = Some df_a
      \<and> fst (load_csv_to_db_body env_ex ''data/a.csv'' ''a'' world_ex) = Inr (''a'', 1)"
    using t l by simp
  have "\<forall>j. dir_exists env_ex \<and> j < length (candidates env_ex) \<and> candidates env_ex ! j = ''a.csv''
          \<and> (\<forall>g. g \<in> set (drop (Suc j) (candidates env_ex)) \<and> derive_table_name ascii_lower g = ''a''
                 \<longrightarrow> file_frame env_ex g = None)
        \<longrightarrow> ui (snd (ingest_all ascii_lower env_ex world_ex)) ! j = Loaded ''a'' 1
          \<and> db (snd (ingest_all ascii_lower env_ex world_ex)) ''a'' = Some df_a"
    using t l by simp
  then have "dir_exists env_ex \<and> 1 < length (candidates env_ex) \<and> candidates env_ex ! 1 = ''a.csv''
          \<and> (\<forall>g. g \<in> set (drop (Suc 1) (candidates env_ex)) \<and> derive_table_name ascii_lower g = ''a''
                 \<longrightarrow> file_frame env_ex g = None)
        \<longrightarrow> ui (snd (ingest_all ascii_lower env_ex world_ex)) ! 1 = Loaded ''a'' 1
          \<and> db (snd (ingest_all ascii_lower env_ex world_ex)) ''a'' = Some df_a"
    by (rule spec)
  then have run: "ui (snd (ingest_all ascii_lower env_ex world_ex)) ! 1 = Loaded ''a'' 1
      \<and> db (snd (ingest_all ascii_lower env_ex world_ex)) ''a'' = Some df_a"
    by simp
  from one run l show ?thesis by simp
qed

section \<open>Running the ingestion twice\<close>

text \<open>
  C1. Run \<^verbatim>\<open>ingest_all\<close> in a new session, then again in another new session on the
  store the first run left, over the same directory listing, the inspector answering in
  both. Then every file that the first run reported as loaded is reported by the second
  as "already exists, skipping", at the same position of the report; every table that
  exists after the first run is unchanged by the second; and when the files read the
  same and the store faults the same in both runs, the whole store after the second run
  is the store after the first. This holds from every store the first run starts on, so
  from the empty one.
\<close>

theorem ingest_all_idempotent:
  assumes "dir_exists env1" and "dir_exists env2" and "listdir env2 = listdir env1"
    and "reflect_error env1 = None" and "reflect_error env2 = None"
  shows "(\<forall>i t n. i < length (candidates env1) \<and>
            ui (snd (ingest_all lower env1 (new_session w0))) ! i = Loaded t n \<longrightarrow>
            ui (snd (ingest_all lower env2 (new_session (snd (ingest_all lower env1 (new_session w0)))))) ! i =
              Skipped_AlreadyExists t)
       \<and> (\<forall>t. t \<in> dom (db (snd (ingest_all lower env1 (new_session w0)))) \<longrightarrow>
            db (snd (ingest_all lower env2 (new_session (snd (ingest_all lower env1 (new_session w0)))))) t =
            db (snd (ingest_all lower env1 (new_session w0))) t)
       \<and> (read_csv env2 = read_csv env1 \<and> write_fault env2 = write_fault env1 \<longrightarrow>
            db (snd (ingest_all lower env2 (new_session (snd (ingest_all lower env1 (new_session w0)))))) =
            db (snd (ingest_all lower env1 (new_session w0))))"
proof -
  define w1 where "w1 = snd (ingest_all lower env1 (new_session w0))"
  define w2 where "w2 = snd (ingest_all lower env2 (new_session w1))"
  define cs where "cs = candidates env1"
  define S1 where "S1 = dom (db w0)"
  define S2 where "S2 = dom (db w1)"
  have cs2: "candidates env2 = cs"
    using assms(3) by (simp add: candidates_def cs_def)
  have db1: "db w1 = fold (file_store lower env1 S1) cs (db w0)"
    unfolding w1_def cs_def S1_def using assms(1,4) by (simp add: ingest_all_db_ui)
  have ui1: "ui w1 = map (file_outcome lower env1 S1) cs"
    unfolding w1_def cs_def S1_def using assms(1,4) by (simp add: ingest_all_db_ui)
  have db2: "db w2 = fold (file_store lower env2 S2) cs (db w1)"
    unfolding w2_def S2_def cs2 [symmetric] using assms(2,5) by (simp add: ingest_all_db_ui)
  have ui2: "ui w2 = map (file_outcome lower env2 S2) cs"
    unfolding w2_def S2_def cs2 [symmetric] using assms(2,5) by (simp add: ingest_all_db_ui)
  have sub: "S1 \<subseteq> S2"
    unfolding S1_def S2_def db1 by (rule dom_fold_file_store)
  have loaded: "derive_table_name lower f \<in> S2"
    if "f \<in> set cs" and "derive_table_name lower f \<notin> S1" and "file_frame env1 f = Some df" for f df
    unfolding S2_def db1 using that by (rule loaded_in_dom)
  have a: "ui w2 ! i = Skipped_AlreadyExists t"
    if i: "i < length cs" and l: "ui w1 ! i = Loaded t n" for i t n
  proof -
    have "file_outcome lower env1 S1 (cs ! i) = Loaded t n"
      using i l by (simp add: ui1)
    then have t: "t = derive_table_name lower (cs ! i)" and n1: "derive_table_name lower (cs ! i) \<notin> S1"
      and fr: "file_frame env1 (cs ! i) \<noteq> None"
      by (simp_all add: file_outcome_Loaded)
    from fr obtain df where "file_frame env1 (cs ! i) = Some df" by auto
    with n1 i have "derive_table_name lower (cs ! i) \<in> S2"
      by (intro loaded) simp_all
    then have "file_outcome lower env2 S2 (cs ! i) = Skipped_AlreadyExists t"
      by (simp add: file_outcome_def t)
    then show ?thesis using i by (simp add: ui2)
  qed
  have b: "db w2 t = db w1 t" if "t \<in> S2" for t
    unfolding db2 using that by (rule fold_file_store_snapshot)
  have c: "db w2 = db w1"
    if r: "read_csv env2 = read_csv env1" and wf: "write_fault env2 = write_fault env1"
  proof -
    have fixed: "file_store lower env2 S2 f s = s" if f: "f \<in> set cs" for f s
    proof (cases "derive_table_name lower f \<in> S2")
      case True
      then show ?thesis by (simp add: file_store_def)
    next
      case False
      with sub have n1: "derive_table_name lower f \<notin> S1" by auto
      have "file_frame env1 f = None"
      proof (cases "file_frame env1 f")
        case None
        then show ?thesis .
      next
        case (Some df)
        with f n1 have "derive_table_name lower f \<in> S2" by (intro loaded)
        with False show ?thesis by simp
      qed
      then have "file_frame env2 f = None"
        using file_frame_cong [OF r wf, of f] by simp
      then show ?thesis by (simp add: file_store_def)
    qed
    have "fold (file_store lower env2 S2) cs (db w1) = db w1"
      by (rule fold_fixed) (rule fixed)
    then show ?thesis by (simp only: db2)
  qed
  have a': "\<forall>i t n. i < length cs \<and> ui w1 ! i = Loaded t n \<longrightarrow> ui w2 ! i = Skipped_AlreadyExists t"
    using a by blast
  have b': "\<forall>t. t \<in> dom (db w1) \<longrightarrow> db w2 t = db w1 t"
    using b unfolding S2_def by blast
  have c': "read_csv env2 = read_csv env1 \<and> write_fault env2 = write_fault env1 \<longrightarrow> db w2 = db w1"
    using c by blast
  from a' b' c' show ?thesis
    unfolding w2_def w1_def cs_def by (intro conjI)
qed

theorem ingest_all_idempotent_witness:
  "dir_exists env_ex \<and> listdir env_ex = listdir env_ex \<and> reflect_error env_ex = None
   \<and> db world_ex = Map.empty
   \<and> (0::nat) < length (candidates env_ex)
   \<and> ui (snd (ingest_all ascii_lower env_ex (new_session world_ex))) ! 0 = Loaded ''a'' 2
   \<and> ''a'' \<in> dom (db (snd (ingest_all ascii_lower env_ex (new_session world_ex))))
   \<and> ui (snd (ingest_all ascii_lower env_ex (new_session (snd (ingest_all ascii_lower env_ex (new_session world_ex)))))) ! 0
       = Skipped_AlreadyExists ''a''
   \<and> db (snd (ingest_all ascii_lower env_ex (new_session (snd (ingest_all ascii_lower env_ex (new_session world_ex)))))) ''a''
       = db (snd (ingest_all ascii_lower env_ex (new_session world_ex))) ''a''
   \<and> db (snd (ingest_all ascii_lower env_ex (new_session (snd (ingest_all ascii_lower env_ex (new_session world_ex))))))
       = db (snd (ingest_all ascii_lower env_ex (new_session world_ex)))"
proof -
  have ui1: "ui (snd (ingest_all ascii_lower env_ex (new_session world_ex))) ! 0 = Loaded ''a'' 2"
    by (simp add: ingest_all_run file_outcome_def)
  have dom1: "''a'' \<in> dom (db (snd (ingest_all ascii_lower env_ex (new_session world_ex))))"
    by (simp add: ingest_all_run file_store_def file_frame_def)
  show ?thesis
    using ingest_all_idempotent [where ?env1.0 = env_ex and ?env2.0 = env_ex and ?w0.0 = world_ex
        and lower = ascii_lower] ui1 dom1
    by simp
qed

section \<open>A failure stays with its file\<close>

lemma file_outcome_failed:
  assumes "derive_table_name lower f \<notin> S"
    and "read_csv env (os_path_join data_folder f) = Inl e \<or>
         (\<exists>df k. read_csv env (os_path_join data_folder f) = Inr df \<and>
                 write_fault env (os_path_join data_folder f) = Some (k, e))"
  shows "file_outcome lower env S f = Failed f e" and "file_frame env f = None"
    and "file_store lower env S f s = s"
  using assms by (auto simp: file_outcome_def file_frame_def file_store_def)

lemma file_helpers_listdir [simp]:
  "file_outcome lower (env\<lparr>listdir := l\<rparr>) = file_outcome lower env"
  "file_store lower (env\<lparr>listdir := l\<rparr>) = file_store lower env"
  "file_io lower (env\<lparr>listdir := l\<rparr>) = file_io lower env"
  "file_frame (env\<lparr>listdir := l\<rparr>) = file_frame env"
  by (auto simp: file_outcome_def file_store_def file_io_def file_frame_def fun_eq_iff
      split: sum.splits option.splits)

lemma listdir_returns_Inr: "listdir env = Inr names \<Longrightarrow> listdir_returns env"
  by (simp add: listdir_returns_def)

text \<open>
  C5. Take a run of \<^verbatim>\<open>ingest_all\<close> whose directory exists, whose listing is
  \<open>pre @ f # post\<close> and whose inspector answers, and let \<open>f\<close> be a candidate file that is
  not skipped and whose read raises \<open>e\<close>, or whose read returns a frame and whose write
  raises \<open>e\<close>. Then:
  \<^item> no exception leaves the run;
  \<^item> the run adds exactly one message per candidate file, in the order of the listing:
    the messages of the candidates before \<open>f\<close>, then "Failed to load" with \<open>f\<close> and \<open>e\<close>,
    then the messages of the candidates after \<open>f\<close>; the messages of the other files are
    the messages of the run on the directory without \<open>f\<close>;
  \<^item> the store after the run is the store after the run on the directory without \<open>f\<close>:
    the failure changes no table, and the loads of the other files do what they do
    without it;
  \<^item> every other candidate file that is not skipped is read, before or after the
    failure;
  \<^item> a table that is not skipped holds, after the run, the frame of the last file of its
    name whose read and write went through.
\<close>

theorem failure_is_isolated:
  assumes "dir_exists env" and "listdir env = Inr (pre @ f # post)"
    and "info_cache w = None \<longrightarrow> reflect_error env = None"
    and "is_candidate f" and "derive_table_name lower f \<notin> snapshot w"
    and "read_csv env (os_path_join data_folder f) = Inl e \<or>
         (\<exists>df k. read_csv env (os_path_join data_folder f) = Inr df \<and>
                 write_fault env (os_path_join data_folder f) = Some (k, e))"
  shows "fst (ingest_all lower env w) = None
       \<and> ui (snd (ingest_all lower env w)) =
           ui w @ map (file_outcome lower env (snapshot w)) (filter is_candidate pre)
                @ [Failed f e]
                @ map (file_outcome lower env (snapshot w)) (filter is_candidate post)
       \<and> ui (snd (ingest_all lower (env\<lparr>listdir := Inr (pre @ post)\<rparr>) w)) =
           ui w @ map (file_outcome lower env (snapshot w)) (filter is_candidate pre)
                @ map (file_outcome lower env (snapshot w)) (filter is_candidate post)
       \<and> db (snd (ingest_all lower env w)) =
           db (snd (ingest_all lower (env\<lparr>listdir := Inr (pre @ post)\<rparr>) w))
       \<and> db (snd (ingest_all lower env w)) =
           fold (file_store lower env (snapshot w)) (filter is_candidate (pre @ post)) (db w)
       \<and> (\<forall>g. g \<in> set (pre @ post) \<and> is_candidate g \<and> derive_table_name lower g \<notin> snapshot w
              \<longrightarrow> Read_csv (os_path_join data_folder g) \<in> set (io (snd (ingest_all lower env w))))
       \<and> (\<forall>m t df. m < length (candidates env) \<and> derive_table_name lower (candidates env ! m) = t
              \<and> t \<notin> snapshot w \<and> file_frame env (candidates env ! m) = Some df
              \<and> (\<forall>g. g \<in> set (drop (Suc m) (candidates env)) \<and> derive_table_name lower g = t
                     \<longrightarrow> file_frame env g = None)
              \<longrightarrow> db (snd (ingest_all lower env w)) t = Some df)"
proof -
  define S where "S = snapshot w"
  define env' where "env' = env\<lparr>listdir := Inr (pre @ post)\<rparr>"
  have lr: "listdir_returns env" using assms(2) by (rule listdir_returns_Inr)
  have lr': "listdir_returns env'" by (simp add: env'_def listdir_returns_def)
  have d': "dir_exists env'" using assms(1) by (simp add: env'_def)
  have c': "info_cache w = None \<longrightarrow> reflect_error env' = None"
    using assms(3) by (simp add: env'_def)
  have cs: "candidates env = filter is_candidate pre @ f # filter is_candidate post"
    using assms(2,4) by (simp add: candidates_Inr)
  have cs': "candidates env' = filter is_candidate pre @ filter is_candidate post"
    by (simp add: candidates_def env'_def)
  note fail = file_outcome_failed [OF assms(5,6)]
  have ok: "fst (ingest_all lower env w) = None"
    using assms(1,3) lr by (rule ingest_all_run(1))
  have ui: "ui (snd (ingest_all lower env w)) =
      ui w @ map (file_outcome lower env S) (filter is_candidate pre) @ [Failed f e]
           @ map (file_outcome lower env S) (filter is_candidate post)"
    using ingest_all_run(3) [OF assms(1,3) lr, of lower] fail(1) by (simp add: cs S_def)
  have ui': "ui (snd (ingest_all lower env' w)) =
      ui w @ map (file_outcome lower env S) (filter is_candidate pre)
           @ map (file_outcome lower env S) (filter is_candidate post)"
    using ingest_all_run(3) [OF d' c' lr', of lower] by (simp add: cs' S_def) (simp add: env'_def)
  have db: "db (snd (ingest_all lower env w)) =
      fold (file_store lower env S) (filter is_candidate (pre @ post)) (db w)"
    using ingest_all_run(2) [OF assms(1,3) lr, of lower] fail(3) by (simp add: cs S_def)
  have db': "db (snd (ingest_all lower env' w)) =
      fold (file_store lower env S) (filter is_candidate (pre @ post)) (db w)"
    using ingest_all_run(2) [OF d' c' lr', of lower] by (simp add: cs' S_def) (simp add: env'_def)
  have rd: "Read_csv (os_path_join data_folder g) \<in> set (io (snd (ingest_all lower env w)))"
    if "g \<in> set (pre @ post)" and "is_candidate g" and "derive_table_name lower g \<notin> S" for g
  proof -
    have "g \<in> set (candidates env)" using that(1,2) by (auto simp: cs)
    moreover have "Read_csv (os_path_join data_folder g) \<in> set (file_io lower env S g)"
      using that(3) by (rule read_of_unskipped)
    ultimately show ?thesis
      using ingest_all_run(4) [OF assms(1,3) lr, of lower] by (auto simp: S_def)
  qed
  have last: "db (snd (ingest_all lower env w)) t = Some df"
    if "m < length (candidates env)" and "derive_table_name lower (candidates env ! m) = t"
      and "t \<notin> S" and "file_frame env (candidates env ! m) = Some df"
      and "\<forall>g. g \<in> set (drop (Suc m) (candidates env)) \<and> derive_table_name lower g = t
             \<longrightarrow> file_frame env g = None"
    for m t df
  proof -
    have "fold (file_store lower env S) (candidates env) (db w) t = Some df"
      using that(1,2,3,4)
    proof (rule fold_file_store_last)
      fix g assume "g \<in> set (drop (Suc m) (candidates env))" and "derive_table_name lower g = t"
      with that(5) show "file_frame env g = None" by blast
    qed
    then show ?thesis
      using ingest_all_run(2) [OF assms(1,3) lr, of lower] by (simp add: S_def)
  qed
  have same: "db (snd (ingest_all lower env w)) = db (snd (ingest_all lower env' w))"
    by (simp only: db db')
  have rd': "\<forall>g. g \<in> set (pre @ post) \<and> is_candidate g \<and> derive_table_name lower g \<notin> S
      \<longrightarrow> Read_csv (os_path_join data_folder g) \<in> set (io (snd (ingest_all lower env w)))"
    using rd by blast
  have last': "\<forall>m t df. m < length (candidates env) \<and> derive_table_name lower (candidates env ! m) = t
      \<and> t \<notin> S \<and> file_frame env (candidates env ! m) = Some df
      \<and> (\<forall>g. g \<in> set (drop (Suc m) (candidates env)) \<and> derive_table_name lower g = t
             \<longrightarrow> file_frame env g = None)
      \<longrightarrow> db (snd (ingest_all lower env w)) t = Some df"
    using last by blast
  from ok ui ui' same db rd' last' show ?thesis
    unfolding S_def env'_def by (intro conjI)
qed


lemma derive_c [simp]: "derive_table_name ascii_lower ''c.csv'' = ''c''"
  by code_simp

lemma is_candidate_c [simp]: "is_candidate ''c.csv''"
  by code_simp

lemma env_iso_simps [simp]:
  "dir_exists env_iso" "reflect_error env_iso = None" "engine_error env_iso = None"
  "inspect_error env_iso = None" "listdir_returns env_iso"
  "listdir env_iso = Inr [''A.csv'', ''b.csv'', ''c.csv'']"
  "candidates env_iso = [''A.csv'', ''b.csv'', ''c.csv'']"
  "read_csv env_iso ''data/A.csv'' = Inr df_A"
  "read_csv env_iso ''data/b.csv'' = Inl (OtherException ''parse error'')"
  "read_csv env_iso ''data/c.csv'' = Inr df_a"
  "write_fault env_iso p = None"
  by (simp_all add: env_iso_def env_ex_def candidates_def listdir_returns_def)

theorem failure_is_isolated_witness:
  "dir_exists env_iso \<and> listdir env_iso = Inr ([''A.csv''] @ ''b.csv'' # [''c.csv''])
   \<and> reflect_error env_iso = None \<and> is_candidate ''b.csv''
   \<and> derive_table_name ascii_lower ''b.csv'' \<notin> snapshot world_ex
   \<and> read_csv env_iso (os_path_join data_folder ''b.csv'') = Inl (OtherException ''parse error'')
   \<and> fst (ingest_all ascii_lower env_iso world_ex) = None
   \<and> ui (snd (ingest_all ascii_lower env_iso world_ex)) =
       [Loaded ''a'' 2, Failed ''b.csv'' (OtherException ''parse error''), Loaded ''c'' 1]
   \<and> ui (snd (ingest_all ascii_lower (env_iso\<lparr>listdir := Inr ([''A.csv''] @ [''c.csv''])\<rparr>) world_ex)) =
       [Loaded ''a'' 2, Loaded ''c'' 1]
   \<and> db (snd (ingest_all ascii_lower env_iso world_ex)) = [''a'' \<mapsto> df_A, ''c'' \<mapsto> df_a]
   \<and> db (snd (ingest_all ascii_lower (env_iso\<lparr>listdir := Inr ([''A.csv''] @ [''c.csv''])\<rparr>) world_ex)) =
       [''a'' \<mapsto> df_A, ''c'' \<mapsto> df_a]
   \<and> Read_csv ''data/c.csv'' \<in> set (io (snd (ingest_all ascii_lower env_iso world_ex)))
   \<and> db (snd (ingest_all ascii_lower env_iso world_ex)) ''c'' = Some df_a"
proof -
  note t = failure_is_isolated [where env = env_iso and pre = "[''A.csv'']" and f = "''b.csv''"
      and post = "[''c.csv'']" and w = world_ex and lower = ascii_lower
      and e = "OtherException ''parse error''"]
  have t': "fst (ingest_all ascii_lower env_iso world_ex) = None
     \<and> ui (snd (ingest_all ascii_lower env_iso world_ex)) =
       [Loaded ''a'' 2, Failed ''b.csv'' (OtherException ''parse error''), Loaded ''c'' 1]
     \<and> ui (snd (ingest_all ascii_lower (env_iso\<lparr>listdir := Inr ([''A.csv''] @ [''c.csv''])\<rparr>) world_ex)) =
       [Loaded ''a'' 2, Loaded ''c'' 1]
     \<and> db (snd (ingest_all ascii_lower env_iso world_ex)) =
       db (snd (ingest_all ascii_lower (env_iso\<lparr>listdir := Inr ([''A.csv''] @ [''c.csv''])\<rparr>) world_ex))
     \<and> db (snd (ingest_all ascii_lower env_iso world_ex)) = [''a'' \<mapsto> df_A, ''c'' \<mapsto> df_a]
     \<and> Read_csv ''data/c.csv'' \<in> set (io (snd (ingest_all ascii_lower env_iso world_ex)))"
    using t by (auto simp: file_outcome_def file_store_def file_frame_def)
  let ?X = "db (snd (ingest_all ascii_lower env_iso world_ex))"
  let ?Y = "db (snd (ingest_all ascii_lower
      (env_iso\<lparr>listdir := Inr ([''A.csv''] @ [''c.csv''])\<rparr>) world_ex))"
  from t' have x: "?X = [''a'' \<mapsto> df_A, ''c'' \<mapsto> df_a]" and xy: "?X = ?Y"
    by blast+
  have y: "?Y = [''a'' \<mapsto> df_A, ''c'' \<mapsto> df_a]"
    using xy [symmetric] x by (rule trans)
  have c: "?X ''c'' = Some df_a"
    by (simp only: x) simp
  have hyps: "dir_exists env_iso \<and> listdir env_iso = Inr ([''A.csv''] @ ''b.csv'' # [''c.csv''])
      \<and> reflect_error env_iso = None \<and> is_candidate ''b.csv''
      \<and> derive_table_name ascii_lower ''b.csv'' \<notin> snapshot world_ex
      \<and> read_csv env_iso (os_path_join data_folder ''b.csv'') = Inl (OtherException ''parse error'')"
    by simp
  from hyps t' x y c show ?thesis by blast
qed

section \<open>Loading twice\<close>

lemma load_csv_to_db_memo:
  assumes "fst (load_csv_to_db env file t w) = Inr r"
  shows "cache_data (snd (load_csv_to_db env file t w)) (file, t) = Some r"
proof (cases "cache_data w (file, t)")
  case (Some r')
  with assms show ?thesis by (simp add: load_csv_to_db_def)
next
  case None
  obtain x w' where b: "load_csv_to_db_body env file t w = (x, w')"
    by (cases "load_csv_to_db_body env file t w")
  with None assms show ?thesis
    by (cases x) (simp_all add: load_csv_to_db_def)
qed

lemma load_csv_to_db_hit:
  "cache_data w (file, t) = Some r \<Longrightarrow> load_csv_to_db env file t w = (Inr r, w)"
  by (simp add: load_csv_to_db_def)

text \<open>
  C10. The load writes with replace semantics, in both scripts.
  \<^item> For the \<^verbatim>\<open>try\<close> body of \<^verbatim>\<open>app.py\<close>, loading the same file into the same table
    twice leaves the store as loading it once does, whatever the read and the store do.
  \<^item> When the read returns a frame and the write meets no fault, the table is that frame
    after one load and after two, whatever the table held before, for the body of
    \<^verbatim>\<open>app.py\<close> and for the body of \<^verbatim>\<open>load_csv_to_db\<close>; and two loads by the body of
    \<^verbatim>\<open>load_csv_to_db\<close> leave the store as one does. Nothing is appended.
  \<^item> In \<^verbatim>\<open>app.py\<close>, once a load has gone through, a second load of the same contents
    leaves the store as it is even when the store fails under it.
  \<^item> A second call of \<^verbatim>\<open>load_csv_to_db\<close> with the arguments of a call that returned
    gives the stored result and changes nothing: the memo table answers.
\<close>

theorem load_is_replace_idempotent:
  "db (load_file env f file t (load_file env f file t w)) = db (load_file env f file t w)
   \<and> (read_csv env file = Inr df \<and> write_fault env file = None \<longrightarrow>
        db (load_file env f file t w) t = Some df
      \<and> db (load_file env f file t (load_file env f file t w)) t = Some df
      \<and> db (snd (load_csv_to_db_body env file t w)) t = Some df
      \<and> db (snd (load_csv_to_db_body env file t (snd (load_csv_to_db_body env file t w)))) =
          db (snd (load_csv_to_db_body env file t w)))
   \<and> (read_csv env' file = read_csv env file \<and> read_csv env file = Inr df
        \<and> write_fault env file = None \<longrightarrow>
        db (load_file env' f file t (load_file env f file t w)) = db (load_file env f file t w))
   \<and> (\<forall>r. fst (load_csv_to_db env file t w) = Inr r \<longrightarrow>
        load_csv_to_db env' file t (snd (load_csv_to_db env file t w)) =
          (Inr r, snd (load_csv_to_db env file t w)))"
proof -
  have a: "db (load_file env f file t (load_file env f file t w)) = db (load_file env f file t w)"
    by (simp add: load_file_db split: sum.splits option.splits)
  have b: "read_csv env file = Inr df \<and> write_fault env file = None \<longrightarrow>
        db (load_file env f file t w) t = Some df
      \<and> db (load_file env f file t (load_file env f file t w)) t = Some df
      \<and> db (snd (load_csv_to_db_body env file t w)) t = Some df
      \<and> db (snd (load_csv_to_db_body env file t (snd (load_csv_to_db_body env file t w)))) =
          db (snd (load_csv_to_db_body env file t w))"
    by (simp add: load_file_db load_csv_to_db_body_db)
  have c: "read_csv env' file = read_csv env file \<and> read_csv env file = Inr df
        \<and> write_fault env file = None \<longrightarrow>
        db (load_file env' f file t (load_file env f file t w)) = db (load_file env f file t w)"
    by (simp add: load_file_db split: option.splits)
  have d: "load_csv_to_db env' file t (snd (load_csv_to_db env file t w)) =
          (Inr r, snd (load_csv_to_db env file t w))"
    if "fst (load_csv_to_db env file t w) = Inr r" for r
    using that by (intro load_csv_to_db_hit load_csv_to_db_memo)
  from a b c d show ?thesis by blast
qed

theorem load_is_replace_idempotent_witness:
  "read_csv env_fault ''data/A.csv'' = read_csv env_ex ''data/A.csv''
   \<and> read_csv env_ex ''data/A.csv'' = Inr df_A \<and> write_fault env_ex ''data/A.csv'' = None
   \<and> db (load_file env_ex ''A.csv'' ''data/A.csv'' ''a'' world_mid) ''a'' = Some df_A
   \<and> db (load_file env_ex ''A.csv'' ''data/A.csv'' ''a''
          (load_file env_ex ''A.csv'' ''data/A.csv'' ''a'' world_mid)) ''a'' = Some df_A
   \<and> db (snd (load_csv_to_db_body env_ex ''data/A.csv'' ''a''
          (snd (load_csv_to_db_body env_ex ''data/A.csv'' ''a'' world_mid)))) =
       db (snd (load_csv_to_db_body env_ex ''data/A.csv'' ''a'' world_mid))
   \<and> db (load_file env_fault ''A.csv'' ''data/A.csv'' ''a''
          (load_file env_ex ''A.csv'' ''data/A.csv'' ''a'' world_mid)) =
       db (load_file env_ex ''A.csv'' ''data/A.csv'' ''a'' world_mid)
   \<and> fst (load_csv_to_db env_ex ''data/A.csv'' ''a'' world_mid) = Inr (''a'', 2)
   \<and> load_csv_to_db env_fault ''data/A.csv'' ''a''
        (snd (load_csv_to_db env_ex ''data/A.csv'' ''a'' world_mid)) =
      (Inr (''a'', 2), snd (load_csv_to_db env_ex ''data/A.csv'' ''a'' world_mid))"
proof -
  have r: "fst (load_csv_to_db env_ex ''data/A.csv'' ''a'' world_mid) = Inr (''a'', 2)"
    using load_csv_to_db_body_result [of env_ex "''data/A.csv''" "''a''" world_mid]
    by (cases "load_csv_to_db_body env_ex ''data/A.csv'' ''a'' world_mid")
      (simp add: load_csv_to_db_def world_mid_def world_ex_def)
  show ?thesis
    using load_is_replace_idempotent [of env_ex "''A.csv''" "''data/A.csv''" "''a''" world_mid
        df_A env_fault] r
    by simp
qed

text \<open>
  A write of \<^verbatim>\<open>data_injection.py\<close> that raises is another matter: no transaction
  surrounds it, so the table that was there is dropped and stays dropped. The theorem
  above says nothing of a load of that script that raises.
\<close>

lemma load_csv_to_db_failed_write:
  "fst (load_csv_to_db_body env_fault ''data/a.csv'' ''a'' world_mid) = Inl lost
   \<and> db world_mid ''a'' = Some df_A
   \<and> db (snd (load_csv_to_db_body env_fault ''data/a.csv'' ''a'' world_mid)) ''a'' = None"
  by (simp add: load_csv_to_db_body_result load_csv_to_db_body_db to_sql_ddl_def)

section \<open>The run-once gate\<close>

text \<open>
  C9, as the code has it. A script run that finds the key \<^verbatim>\<open>data_loaded\<close> absent, sets
  up engine and inspector without an exception, finds the data directory, gets its
  listing from \<^verbatim>\<open>os.listdir\<close> and gets an answer from the inspector (or has no
  candidate file to ask it about) ends with the key set, whatever the loads of the single
  files did. A script run that finds the key set changes nothing: the ingestion block is
  not entered. A script run that finds the key absent and the directory missing, or in
  which the set-up, \<^verbatim>\<open>os.listdir\<close> or the inspector's query raises, ends with the key
  still absent and the store as it was, so the next run enters the block again.
\<close>

theorem run_once_gate:
  "(\<not> session_data_loaded w \<and> engine_error env = None \<and> inspect_error env = None
      \<and> dir_exists env \<and> listdir_returns env
      \<and> (reflect_error env = None \<or> candidates env = [])
      \<longrightarrow> session_data_loaded (script_run lower env w))
   \<and> (session_data_loaded w \<longrightarrow> script_run lower env w = w)
   \<and> (\<not> session_data_loaded w
      \<and> (\<not> dir_exists env \<or> engine_error env \<noteq> None \<or> inspect_error env \<noteq> None
           \<or> \<not> listdir_returns env
           \<or> (reflect_error env \<noteq> None \<and> candidates env \<noteq> []))
      \<longrightarrow> \<not> session_data_loaded (script_run lower env w) \<and> db (script_run lower env w) = db w)"
  using script_run_sets_flag [of w env lower] script_run_gate [of w lower env]
    script_run_keeps_flag_unset [of w env lower]
  by blast

lemma env_nodir_simps [simp]:
  "\<not> dir_exists env_nodir" "engine_error env_nodir = None" "inspect_error env_nodir = None"
  by (simp_all add: env_nodir_def env_ex_def)

lemma env_down_simps [simp]:
  "inspect_error env_down = Some (SQLAlchemyError ''connection refused'')"
  "engine_error env_down = None"
  by (simp_all add: env_down_def env_ex_def)

theorem run_once_gate_witness:
  "\<not> session_data_loaded world_ex \<and> engine_error env_allfail = None
   \<and> inspect_error env_allfail = None \<and> dir_exists env_allfail \<and> listdir_returns env_allfail
   \<and> reflect_error env_allfail = None
   \<and> read_csv env_allfail ''data/A.csv'' = Inl (OtherException ''parse error'')
   \<and> session_data_loaded (script_run ascii_lower env_allfail world_ex)
   \<and> script_run ascii_lower env_ex (script_run ascii_lower env_allfail world_ex) =
       script_run ascii_lower env_allfail world_ex
   \<and> \<not> dir_exists env_nodir
   \<and> \<not> session_data_loaded (script_run ascii_lower env_nodir world_ex)
   \<and> inspect_error env_down \<noteq> None
   \<and> \<not> session_data_loaded (script_run ascii_lower env_down world_ex)
   \<and> \<not> listdir_returns env_unlistable
   \<and> \<not> session_data_loaded (script_run ascii_lower env_unlistable world_ex)
   \<and> session_data_loaded (script_run ascii_lower env_ex (script_run ascii_lower env_down world_ex))"
  using run_once_gate [of world_ex env_allfail ascii_lower]
    run_once_gate [of "script_run ascii_lower env_allfail world_ex" env_ex ascii_lower]
    run_once_gate [of world_ex env_nodir ascii_lower]
    run_once_gate [of world_ex env_down ascii_lower]
    run_once_gate [of world_ex env_unlistable ascii_lower]
    run_once_gate [of "script_run ascii_lower env_down world_ex" env_ex ascii_lower]
  by simp

text \<open>
  That the data directory exists is not enough for the key to be set: on a directory
  that may not be read \<^verbatim>\<open>os.listdir\<close> raises, the outer handler shows the error and
  the key stays absent.
\<close>

theorem run_once_gate_counterexample:
  "dir_exists env_unlistable \<and> engine_error env_unlistable = None
   \<and> inspect_error env_unlistable = None \<and> reflect_error env_unlistable = None
   \<and> listdir env_unlistable = Inl (OtherException ''Permission denied'')
   \<and> \<not> session_data_loaded world_ex
   \<and> \<not> session_data_loaded (script_run ascii_lower env_unlistable world_ex)
   \<and> ui (script_run ascii_lower env_unlistable world_ex) =
       [Unexpected_error (OtherException ''Permission denied'')]"
  by (simp add: script_run_def ingest_all_unlistable handle_outer_def world_ex_def)

section \<open>The set of existing tables is read once\<close>

text \<open>
  C3, as the code has it. Take a run whose directory exists and whose inspector is new
  and answers, and two candidate files, at positions \<open>i < j\<close> of the listing, that derive
  the same table name \<open>t\<close>, not a table of the store when the run starts. Then:
  the store is asked for its tables exactly once in the run; every candidate file is
  skipped exactly when its derived name was a table when the run started, whatever the
  run has loaded since; neither of the two files is skipped, and each is read; each of
  them whose read and write go through is reported as loaded; and the table \<open>t\<close> holds,
  after the run, the frame of the last file of that name whose read and write went
  through, whichever file of the listing that is (the file processed last, when its load
  succeeds), and is absent when no file of that name was loaded.
\<close>

theorem snapshot_then_iterate:
  assumes "dir_exists env" and "info_cache w = None" and "reflect_error env = None"
    and "i < j" and "j < length (candidates env)"
    and "derive_table_name lower (candidates env ! i) = t"
    and "derive_table_name lower (candidates env ! j) = t"
    and "t \<notin> dom (db w)"
  shows "count_list (drop (length (io w)) (io (snd (ingest_all lower env w)))) Reflect_tables = 1
       \<and> (\<forall>k t'. k < length (candidates env) \<longrightarrow>
            (ui (snd (ingest_all lower env w)) ! (length (ui w) + k) = Skipped_AlreadyExists t') =
            (derive_table_name lower (candidates env ! k) \<in> dom (db w)
             \<and> t' = derive_table_name lower (candidates env ! k)))
       \<and> ui (snd (ingest_all lower env w)) ! (length (ui w) + i) \<noteq> Skipped_AlreadyExists t
       \<and> ui (snd (ingest_all lower env w)) ! (length (ui w) + j) \<noteq> Skipped_AlreadyExists t
       \<and> Read_csv (os_path_join data_folder (candidates env ! i)) \<in> set (io (snd (ingest_all lower env w)))
       \<and> Read_csv (os_path_join data_folder (candidates env ! j)) \<in> set (io (snd (ingest_all lower env w)))
       \<and> (\<forall>df. file_frame env (candidates env ! i) = Some df \<longrightarrow>
            ui (snd (ingest_all lower env w)) ! (length (ui w) + i) = Loaded t (len df))
       \<and> (\<forall>df. file_frame env (candidates env ! j) = Some df \<longrightarrow>
            ui (snd (ingest_all lower env w)) ! (length (ui w) + j) = Loaded t (len df))
       \<and> (\<forall>m df. m < length (candidates env)
              \<and> derive_table_name lower (candidates env ! m) = t
              \<and> file_frame env (candidates env ! m) = Some df
              \<and> (\<forall>f. f \<in> set (drop (Suc m) (candidates env)) \<and> derive_table_name lower f = t
                     \<longrightarrow> file_frame env f = None)
            \<longrightarrow> db (snd (ingest_all lower env w)) t = Some df)
       \<and> ((\<forall>f. f \<in> set (candidates env) \<and> derive_table_name lower f = t
                \<longrightarrow> file_frame env f = None)
            \<longrightarrow> db (snd (ingest_all lower env w)) t = None)"
proof -
  define w' where "w' = snd (ingest_all lower env w)"
  define cs where "cs = candidates env"
  define S where "S = dom (db w)"
  have c: "info_cache w = None \<longrightarrow> reflect_error env = None"
    using assms(3) by simp
  have lr: "listdir_returns env"
    using assms(5) by (rule nth_candidates_listdir_returns)
  have snap: "snapshot w = S"
    using assms(2) by (simp add: snapshot_def S_def)
  have i: "i < length cs" and j: "j < length cs"
    using assms(4,5) by (simp_all add: cs_def)
  have ti: "derive_table_name lower (cs ! i) = t" and tj: "derive_table_name lower (cs ! j) = t"
    using assms(6,7) by (simp_all add: cs_def)
  have tS: "t \<notin> S" using assms(8) by (simp add: S_def)
  have ne: "cs \<noteq> []" using j by auto
  have ui: "ui w' = ui w @ map (file_outcome lower env S) cs"
    unfolding w'_def cs_def using ingest_all_run(3) [OF assms(1) c lr] snap by simp
  have io: "io w' = io w @ [Reflect_tables] @ concat (map (file_io lower env S) cs)"
    unfolding w'_def using ingest_all_run(4) [OF assms(1) c lr, of lower] snap assms(2) ne
    by (simp add: cs_def)
  have db: "db w' = fold (file_store lower env S) cs (db w)"
    unfolding w'_def cs_def using ingest_all_run(2) [OF assms(1) c lr] snap by simp
  have nth: "ui w' ! (length (ui w) + k) = file_outcome lower env S (cs ! k)" if "k < length cs" for k
    using that by (simp add: ui)
  have once: "count_list (drop (length (io w)) (io w')) Reflect_tables = 1"
    by (simp add: io count_reflect_file_io)
  have dec: "(ui w' ! (length (ui w) + k) = Skipped_AlreadyExists t') =
      (derive_table_name lower (cs ! k) \<in> S \<and> t' = derive_table_name lower (cs ! k))"
    if "k < length cs" for k t'
    using that by (simp add: nth file_outcome_Skipped)
  have ni: "ui w' ! (length (ui w) + i) \<noteq> Skipped_AlreadyExists t"
    using i ti tS by (simp add: dec)
  have nj: "ui w' ! (length (ui w) + j) \<noteq> Skipped_AlreadyExists t"
    using j tj tS by (simp add: dec)
  have rd: "Read_csv (os_path_join data_folder (cs ! k)) \<in> set (io w')"
    if "k < length cs" and "derive_table_name lower (cs ! k) = t" for k
  proof -
    have "Read_csv (os_path_join data_folder (cs ! k)) \<in> set (file_io lower env S (cs ! k))"
      using that(2) tS by (intro read_of_unskipped) simp
    moreover have "cs ! k \<in> set cs" using that(1) by simp
    ultimately show ?thesis unfolding io by auto
  qed
  have ld: "ui w' ! (length (ui w) + k) = Loaded t (len df)"
    if "k < length cs" and "derive_table_name lower (cs ! k) = t" and "file_frame env (cs ! k) = Some df"
    for k df
    using that tS file_outcome_frame [of lower "cs ! k" S env df] by (simp add: nth)
  have last: "db w' t = Some df"
    if "m < length cs" and "derive_table_name lower (cs ! m) = t"
      and "file_frame env (cs ! m) = Some df"
      and "\<forall>f. f \<in> set (drop (Suc m) cs) \<and> derive_table_name lower f = t \<longrightarrow> file_frame env f = None"
    for m df
    unfolding db using that(1,2) tS that(3)
  proof (rule fold_file_store_last)
    fix f assume "f \<in> set (drop (Suc m) cs)" and "derive_table_name lower f = t"
    with that(4) show "file_frame env f = None" by blast
  qed
  have none: "db w' t = None"
    if "\<forall>f. f \<in> set cs \<and> derive_table_name lower f = t \<longrightarrow> file_frame env f = None"
  proof -
    have "fold (file_store lower env S) cs (db w) t = db w t"
    proof (rule fold_file_store_unloaded)
      fix f assume "f \<in> set cs" and "derive_table_name lower f = t"
      with that show "file_frame env f = None" by blast
    qed
    then show ?thesis using assms(8) by (simp add: db domIff)
  qed
  have dec': "\<forall>k t'. k < length cs \<longrightarrow>
      (ui w' ! (length (ui w) + k) = Skipped_AlreadyExists t') =
      (derive_table_name lower (cs ! k) \<in> S \<and> t' = derive_table_name lower (cs ! k))"
    using dec by blast
  have ldi: "\<forall>df. file_frame env (cs ! i) = Some df \<longrightarrow>
      ui w' ! (length (ui w) + i) = Loaded t (len df)"
    using ld [OF i ti] by blast
  have ldj: "\<forall>df. file_frame env (cs ! j) = Some df \<longrightarrow>
      ui w' ! (length (ui w) + j) = Loaded t (len df)"
    using ld [OF j tj] by blast
  have last': "\<forall>m df. m < length cs \<and> derive_table_name lower (cs ! m) = t
      \<and> file_frame env (cs ! m) = Some df
      \<and> (\<forall>f. f \<in> set (drop (Suc m) cs) \<and> derive_table_name lower f = t \<longrightarrow> file_frame env f = None)
      \<longrightarrow> db w' t = Some df"
    using last by blast
  have none': "(\<forall>f. f \<in> set cs \<and> derive_table_name lower f = t \<longrightarrow> file_frame env f = None)
      \<longrightarrow> db w' t = None"
    using none by blast
  from once dec' ni nj rd [OF i ti] rd [OF j tj] ldi ldj last' none' show ?thesis
    unfolding w'_def cs_def S_def by (intro conjI)
qed

theorem snapshot_then_iterate_witness:
  "dir_exists env_ex \<and> info_cache world_ex = None \<and> reflect_error env_ex = None
   \<and> (0::nat) < 1 \<and> 1 < length (candidates env_ex)
   \<and> derive_table_name ascii_lower (candidates env_ex ! 0) = ''a''
   \<and> derive_table_name ascii_lower (candidates env_ex ! 1) = ''a''
   \<and> ''a'' \<notin> dom (db world_ex)
   \<and> count_list (io (snd (ingest_all ascii_lower env_ex world_ex))) Reflect_tables = 1
   \<and> ui (snd (ingest_all ascii_lower env_ex world_ex)) ! 0 = Loaded ''a'' 2
   \<and> ui (snd (ingest_all ascii_lower env_ex world_ex)) ! 1 = Loaded ''a'' 1
   \<and> db (snd (ingest_all ascii_lower env_ex world_ex)) ''a'' = Some df_a
   \<and> candidates env_fault ! 0 = ''A.csv'' \<and> file_frame env_fault ''A.csv'' = Some df_A
   \<and> drop (Suc 0) (candidates env_fault) = [''a.csv'', ''b.csv'']
   \<and> file_frame env_fault ''a.csv'' = None
   \<and> ui (snd (ingest_all ascii_lower env_fault world_ex)) ! 1 \<noteq> Skipped_AlreadyExists ''a''
   \<and> db (snd (ingest_all ascii_lower env_fault world_ex)) ''a'' = Some df_A"
proof -
  note ok = snapshot_then_iterate [where env = env_ex and w = world_ex and i = 0 and j = 1
      and t = "''a''" and lower = ascii_lower]
  note ft = snapshot_then_iterate [where env = env_fault and w = world_ex and i = 0 and j = 1
      and t = "''a''" and lower = ascii_lower]
  have fr: "file_frame env_fault ''A.csv'' = Some df_A" "file_frame env_fault ''a.csv'' = None"
    "file_frame env_fault ''b.csv'' = None"
    by (simp_all add: file_frame_def)
  have fr_ex: "file_frame env_ex ''A.csv'' = Some df_A" "file_frame env_ex ''a.csv'' = Some df_a"
    "file_frame env_ex ''b.csv'' = None"
    by (simp_all add: file_frame_def)
  have a1: "count_list (io (snd (ingest_all ascii_lower env_ex world_ex))) Reflect_tables = 1
      \<and> ui (snd (ingest_all ascii_lower env_ex world_ex)) ! 0 = Loaded ''a'' 2
      \<and> ui (snd (ingest_all ascii_lower env_ex world_ex)) ! 1 = Loaded ''a'' 1"
    using ok fr_ex by simp
  have "\<forall>m df. m < length (candidates env_ex)
          \<and> derive_table_name ascii_lower (candidates env_ex ! m) = ''a''
          \<and> file_frame env_ex (candidates env_ex ! m) = Some df
          \<and> (\<forall>f. f \<in> set (drop (Suc m) (candidates env_ex)) \<and> derive_table_name ascii_lower f = ''a''
                 \<longrightarrow> file_frame env_ex f = None)
        \<longrightarrow> db (snd (ingest_all ascii_lower env_ex world_ex)) ''a'' = Some df"
    using ok by simp
  then have "1 < length (candidates env_ex)
          \<and> derive_table_name ascii_lower (candidates env_ex ! 1) = ''a''
          \<and> file_frame env_ex (candidates env_ex ! 1) = Some df_a
          \<and> (\<forall>f. f \<in> set (drop (Suc 1) (candidates env_ex)) \<and> derive_table_name ascii_lower f = ''a''
                 \<longrightarrow> file_frame env_ex f = None)
        \<longrightarrow> db (snd (ingest_all ascii_lower env_ex world_ex)) ''a'' = Some df_a"
    by blast
  then have a2: "db (snd (ingest_all ascii_lower env_ex world_ex)) ''a'' = Some df_a"
    using fr_ex by auto
  note a = a1 a2
  have "\<forall>m df. m < length (candidates env_fault)
          \<and> derive_table_name ascii_lower (candidates env_fault ! m) = ''a''
          \<and> file_frame env_fault (candidates env_fault ! m) = Some df
          \<and> (\<forall>f. f \<in> set (drop (Suc m) (candidates env_fault)) \<and> derive_table_name ascii_lower f = ''a''
                 \<longrightarrow> file_frame env_fault f = None)
        \<longrightarrow> db (snd (ingest_all ascii_lower env_fault world_ex)) ''a'' = Some df"
    using ft by simp
  then have "0 < length (candidates env_fault)
          \<and> derive_table_name ascii_lower (candidates env_fault ! 0) = ''a''
          \<and> file_frame env_fault (candidates env_fault ! 0) = Some df_A
          \<and> (\<forall>f. f \<in> set (drop (Suc 0) (candidates env_fault)) \<and> derive_table_name ascii_lower f = ''a''
                 \<longrightarrow> file_frame env_fault f = None)
        \<longrightarrow> db (snd (ingest_all ascii_lower env_fault world_ex)) ''a'' = Some df_A"
    by blast
  then have b: "db (snd (ingest_all ascii_lower env_fault world_ex)) ''a'' = Some df_A"
    using fr by auto
  have c: "ui (snd (ingest_all ascii_lower env_fault world_ex)) ! 1 \<noteq> Skipped_AlreadyExists ''a''"
    using ft by simp
  from a b c fr show ?thesis by simp
qed

text \<open>
  Without the condition on the loads the statement is false: with \<^verbatim>\<open>A.csv\<close> loaded and
  the write of \<^verbatim>\<open>a.csv\<close> failing, the second file is reported as failed, not loaded,
  and the table holds the frame of the first file, not of the file processed last.
\<close>

theorem snapshot_then_iterate_counterexample:
  "candidates env_fault = [''A.csv'', ''a.csv'', ''b.csv'']
   \<and> derive_table_name ascii_lower ''A.csv'' = ''a'' \<and> derive_table_name ascii_lower ''a.csv'' = ''a''
   \<and> derive_table_name ascii_lower ''b.csv'' = ''b''
   \<and> ''a'' \<notin> dom (db world_ex)
   \<and> read_csv env_fault ''data/a.csv'' = Inr df_a
   \<and> ui (snd (ingest_all ascii_lower env_fault world_ex)) =
       [Loaded ''a'' 2, Failed ''a.csv'' lost, Failed ''b.csv'' (OtherException ''parse error'')]
   \<and> db (snd (ingest_all ascii_lower env_fault world_ex)) ''a'' = Some df_A
   \<and> df_A \<noteq> df_a"
proof -
  have "df_A \<noteq> df_a" by (simp add: df_A_def df_a_def)
  then show ?thesis
    by (simp add: ingest_all_run file_outcome_def file_store_def file_frame_def)
qed

section \<open>A failed write leaves no trace\<close>

text \<open>
  C4, as the code has it, for the ingestion block of \<^verbatim>\<open>app.py\<close>. Take a candidate file
  that is not skipped, whose read returns a frame and whose write meets a fault of the
  store raising \<open>e\<close>. The transaction around \<^verbatim>\<open>to_sql\<close> ends with \<open>e\<close> and the store it
  started from; the turn of the loop ends without an exception, its one message is
  "Failed to load" with \<open>e\<close>, one transaction was opened for the table, and the whole store
  is what it was immediately before the turn: no table is partly written. When no earlier
  candidate file of the same derived name was loaded in the run (there may be such
  files, as long as their read or their write failed), the table is after the turn what
  it was when the run started: absent, if it did not exist then.
\<close>

theorem write_failure_rolls_back:
  assumes "is_candidate f" and "info_cache w = None \<longrightarrow> reflect_error env = None"
    and "derive_table_name lower f \<notin> snapshot w"
    and "read_csv env (os_path_join data_folder f) = Inr df"
    and "write_fault env (os_path_join data_folder f) = Some (k, e)"
  shows "engine_begin (to_sql (derive_table_name lower f) df (Some (k, e))) (db w) = (Some e, db w)
       \<and> fst (process_file lower env f w) = None
       \<and> ui (snd (process_file lower env f w)) = ui w @ [Failed f e]
       \<and> db (snd (process_file lower env f w)) = db w
       \<and> count_list (drop (length (io w)) (io (snd (process_file lower env f w))))
           (Begin_txn (derive_table_name lower f)) = 1
       \<and> ((\<forall>g. g \<in> set pre \<and> is_candidate g
                \<and> derive_table_name lower g = derive_table_name lower f
              \<longrightarrow> file_frame env g = None)
            \<longrightarrow> db (snd (ingest_loop lower env (pre @ [f]) w)) (derive_table_name lower f) =
                db w (derive_table_name lower f))"
proof -
  have fr: "file_frame env f = None"
    using assms(4,5) by (simp only: file_frame_def) simp
  have txn: "engine_begin (to_sql (derive_table_name lower f) df (Some (k, e))) (db w) = (Some e, db w)"
    by (simp add: engine_begin_to_sql)
  have ok: "fst (process_file lower env f w) = None"
    using assms(1,2) by (rule process_file_run(1))
  have msg: "ui (snd (process_file lower env f w)) = ui w @ [Failed f e]"
    using assms(3,4,5) process_file_run(3) [OF assms(1,2), of lower]
    by (simp only: file_outcome_def) simp
  have same: "db (snd (process_file lower env f w)) = db w"
    using fr process_file_run(2) [OF assms(1,2), of lower] by (simp add: file_store_def)
  have one: "count_list (drop (length (io w)) (io (snd (process_file lower env f w))))
      (Begin_txn (derive_table_name lower f)) = 1"
    using assms(3,4) process_file_io [OF assms(1,2), of lower]
    by (simp only: file_io_def) simp
  have run: "db (snd (ingest_loop lower env (pre @ [f]) w)) (derive_table_name lower f) =
      db w (derive_table_name lower f)"
    if "\<forall>g. g \<in> set pre \<and> is_candidate g \<and> derive_table_name lower g = derive_table_name lower f
          \<longrightarrow> file_frame env g = None"
  proof -
    have "db (snd (ingest_loop lower env (pre @ [f]) w)) =
        file_store lower env (snapshot w) f
          (fold (file_store lower env (snapshot w)) (filter is_candidate pre) (db w))"
      using ingest_loop_run(2) [OF assms(2), of lower "pre @ [f]"] assms(1) by simp
    also have "\<dots> = fold (file_store lower env (snapshot w)) (filter is_candidate pre) (db w)"
      using fr by (simp add: file_store_def)
    finally have "db (snd (ingest_loop lower env (pre @ [f]) w)) (derive_table_name lower f) =
        fold (file_store lower env (snapshot w)) (filter is_candidate pre) (db w)
          (derive_table_name lower f)"
      by simp
    also have "\<dots> = db w (derive_table_name lower f)"
    proof (rule fold_file_store_unloaded)
      fix g assume "g \<in> set (filter is_candidate pre)"
        and "derive_table_name lower g = derive_table_name lower f"
      with that show "file_frame env g = None" by simp
    qed
    finally show ?thesis .
  qed
  from txn ok msg same one run show ?thesis by blast
qed

lemma env_twofail_simps [simp]:
  "reflect_error env_twofail = None"
  "read_csv env_twofail ''data/A.csv'' = Inl (OtherException ''parse error'')"
  "read_csv env_twofail ''data/a.csv'' = Inr df_a"
  "write_fault env_twofail ''data/a.csv'' = Some (1, lost)"
  by (simp_all add: env_twofail_def env_fault_def env_ex_def)

theorem write_failure_rolls_back_witness:
  "is_candidate ''a.csv'' \<and> info_cache world_mid \<noteq> None
   \<and> derive_table_name ascii_lower ''a.csv'' \<notin> snapshot world_mid
   \<and> read_csv env_fault (os_path_join data_folder ''a.csv'') = Inr df_a
   \<and> write_fault env_fault (os_path_join data_folder ''a.csv'') = Some (1, lost)
   \<and> snd (to_sql ''a'' df_a (Some (1, lost)) (db world_mid)) ''a'' = None
   \<and> engine_begin (to_sql ''a'' df_a (Some (1, lost))) (db world_mid) = (Some lost, db world_mid)
   \<and> fst (process_file ascii_lower env_fault ''a.csv'' world_mid) = None
   \<and> ui (snd (process_file ascii_lower env_fault ''a.csv'' world_mid)) =
       [Loaded ''a'' 2, Failed ''a.csv'' lost]
   \<and> db (snd (process_file ascii_lower env_fault ''a.csv'' world_mid)) ''a'' = Some df_A
   \<and> is_candidate ''A.csv''
   \<and> derive_table_name ascii_lower ''A.csv'' = derive_table_name ascii_lower ''a.csv''
   \<and> file_frame env_twofail ''A.csv'' = None
   \<and> db world_ex ''a'' = None
   \<and> db (snd (ingest_loop ascii_lower env_twofail [''A.csv'', ''a.csv''] world_ex)) ''a'' = None"
proof -
  have partial: "snd (to_sql ''a'' df_a (Some (1, lost)) (db world_mid)) ''a'' = None"
    by (simp add: to_sql_def to_sql_statements_def)
  have fr: "file_frame env_twofail ''A.csv'' = None"
    by (simp add: file_frame_def)
  show ?thesis
    using write_failure_rolls_back [where f = "''a.csv''" and w = world_mid and env = env_fault
        and df = df_a and k = 1 and e = lost and pre = "[]" and lower = ascii_lower]
      write_failure_rolls_back [where f = "''a.csv''" and w = world_ex and env = env_twofail
        and df = df_a and k = 1 and e = lost and pre = "[''A.csv'']" and lower = ascii_lower]
      partial fr
    by simp
qed

text \<open>
  "Absent or in its state before the run" fails when an earlier file of the same run has
  loaded the same table: \<^verbatim>\<open>A.csv\<close> creates the table \<^verbatim>\<open>a\<close>, the write of
  \<^verbatim>\<open>a.csv\<close> fails, and the table is there, with the frame of \<^verbatim>\<open>A.csv\<close>, though it
  did not exist before the run. And the load of \<^verbatim>\<open>data_injection.py\<close> has no
  transaction and no handler: there the same failing write raises out of the function
  and leaves the table dropped.
\<close>

theorem write_failure_rolls_back_counterexample:
  "candidates env_fault = [''A.csv'', ''a.csv'', ''b.csv'']
   \<and> derive_table_name ascii_lower ''a.csv'' = ''a''
   \<and> db world_ex ''a'' = None
   \<and> read_csv env_fault ''data/a.csv'' = Inr df_a
   \<and> write_fault env_fault ''data/a.csv'' = Some (1, lost)
   \<and> ui (snd (ingest_all ascii_lower env_fault world_ex)) ! 1 = Failed ''a.csv'' lost
   \<and> db (snd (ingest_all ascii_lower env_fault world_ex)) ''a'' = Some df_A
   \<and> db (snd (ingest_all ascii_lower env_fault world_ex)) ''a'' \<noteq> db world_ex ''a''
   \<and> db world_mid ''a'' = Some df_A
   \<and> fst (load_csv_to_db_body env_fault ''data/a.csv'' ''a'' world_mid) = Inl lost
   \<and> db (snd (load_csv_to_db_body env_fault ''data/a.csv'' ''a'' world_mid)) ''a'' = None"
  by (simp add: ingest_all_run file_outcome_def file_store_def file_frame_def
      load_csv_to_db_body_result load_csv_to_db_body_db to_sql_ddl_def)

section \<open>Name derivation\<close>

text \<open>
  C7, as the code has it. The candidate filter accepts exactly the names that end in
  \<^verbatim>\<open>.csv\<close>, compared character by character, so case-sensitively. For a candidate
  name in which \<^verbatim>\<open>.csv\<close> occurs nowhere but at the end, the derived table name is
  the name without its last four characters, lower-cased by \<^verbatim>\<open>str.lower\<close>, whatever
  that function does to the characters: the extension-stripped, lower-cased name of the
  specification.
\<close>

theorem name_derivation:
  "(is_candidate filename \<longleftrightarrow> (\<exists>base. filename = base @ ''.csv''))
   \<and> (is_candidate filename \<and> \<not> str_contains (butlast filename) ''.csv''
        \<longrightarrow> derive_table_name lower filename = lower (take (length filename - 4) filename)
          \<and> derive_table_name lower filename = spec_table_name lower filename)"
proof -
  have a: "is_candidate filename \<longleftrightarrow> (\<exists>base. filename = base @ ''.csv'')"
    by (simp add: is_candidate_def endswith_iff)
  have b: "derive_table_name lower filename = lower (take (length filename - 4) filename)
      \<and> derive_table_name lower filename = spec_table_name lower filename"
    if c: "is_candidate filename" and n: "\<not> str_contains (butlast filename) ''.csv''"
  proof -
    from c a obtain base where f: "filename = base @ ''.csv''" by blast
    have "replace (base @ ''.csv'') ''.csv'' '''' = base @ ''''"
      using n unfolding f by (intro replace_suffix_only) simp_all
    then have d: "derive_table_name lower filename = lower base"
      by (simp add: derive_table_name_def f)
    have t: "take (length filename - 4) filename = base"
      by (simp add: f)
    have "spec_table_name lower filename = lower base"
      using c by (simp add: spec_table_name_def strip_extension_def is_candidate_def t)
    with d t show ?thesis by simp
  qed
  from a b show ?thesis by blast
qed

theorem name_derivation_witness:
  "is_candidate ''Orders.csv'' \<and> \<not> str_contains (butlast ''Orders.csv'') ''.csv''
   \<and> derive_table_name ascii_lower ''Orders.csv'' = ''orders''
   \<and> spec_table_name ascii_lower ''Orders.csv'' = ''orders''
   \<and> ascii_lower (take (length ''Orders.csv'' - 4) ''Orders.csv'') = ''orders''"
proof -
  have c: "is_candidate ''Orders.csv''" by code_simp
  have n: "\<not> str_contains (butlast ''Orders.csv'') ''.csv''" by simp
  have l: "ascii_lower (take (length ''Orders.csv'' - 4) ''Orders.csv'') = ''orders''" by simp
  show ?thesis
    using name_derivation [of "''Orders.csv''" ascii_lower] c n l by auto
qed

text \<open>
  A name with an upper-case extension is not a candidate, and the derivation would not
  strip its extension: \<^verbatim>\<open>replace\<close> runs before \<^verbatim>\<open>lower\<close> and compares
  case-sensitively.
\<close>

theorem name_derivation_counterexample:
  "\<not> is_candidate ''Orders.CSV''
   \<and> replace ''Orders.CSV'' ''.csv'' '''' = ''Orders.CSV''
   \<and> derive_table_name ascii_lower ''Orders.CSV'' = ''orders.csv''
   \<and> ascii_lower ''Orders'' = ''orders''
   \<and> derive_table_name ascii_lower ''Orders.CSV'' \<noteq> ascii_lower ''Orders''"
proof -
  have c: "\<not> is_candidate ''Orders.CSV''" by code_simp
  have r: "replace ''Orders.CSV'' ''.csv'' '''' = ''Orders.CSV''" by code_simp
  have d: "derive_table_name ascii_lower ''Orders.CSV'' = ''orders.csv''" by code_simp
  show ?thesis using c r d by simp
qed

text \<open>
  \<^verbatim>\<open>replace\<close> removes every occurrence of \<^verbatim>\<open>.csv\<close>, not only the extension; the
  theorem above says nothing about such names.
\<close>

lemma derive_table_name_inner_occurrence:
  "is_candidate ''a.csv.csv'' \<and> derive_table_name ascii_lower ''a.csv.csv'' = ''a''
   \<and> spec_table_name ascii_lower ''a.csv.csv'' = ''a.csv''"
  by code_simp

end
